theory Spec2Isabelle
  imports Complex_Main "HOL-Library.Word" "HOL-Library.Multiset"
begin

section \<open>Go values, errors and results\<close>

text \<open>
  A value held in a Go \<open>interface{}\<close>. The four named types that the type switch of
  \<open>doBatchInsert\<close> tells apart (\<open>Result\<close>, \<open>Record\<close>, \<open>List\<close>, \<open>Map\<close>) have constructors of
  their own; \<open>GSlice\<close> is any other slice or array, \<open>GStruct\<close> any struct, \<open>GPtr\<close> a non-nil
  pointer. A Go map is the list of its entries (keys pairwise distinct); the order in
  which a \<open>range\<close> loop visits it is chosen by the runtime and is a separate argument of
  every function of the model that ranges over a map.
\<close>

datatype gval =
    GNil
  | GInt int
  | GString string
  | GPtr gval
  | GSlice "gval list"
  | GStruct "(string \<times> gval) list"
  | GMap "(string \<times> gval) list"
  | GList "(string \<times> gval) list list"
  | GRecord "(string \<times> gval option) list"
  | GResult "(string \<times> gval option) list list"

type_synonym Map = "(string \<times> gval) list"
type_synonym List = "Map list"
text \<open>\<open>Value\<close> is \<open>*gvar.Var\<close>: \<open>None\<close> is the nil pointer, \<open>Some v\<close> is \<open>gvar.New(v)\<close>.\<close>
type_synonym Value = "gval option"
type_synonym Record = "(string \<times> Value) list"
type_synonym Result = "Record list"

datatype kind = KInvalid | KInt | KString | KPtr | KSlice | KMap | KStruct

fun Kind :: "gval \<Rightarrow> kind" where
  "Kind GNil = KInvalid"
| "Kind (GInt _) = KInt"
| "Kind (GString _) = KString"
| "Kind (GPtr _) = KPtr"
| "Kind (GSlice _) = KSlice"
| "Kind (GStruct _) = KStruct"
| "Kind (GMap _) = KMap"
| "Kind (GList _) = KSlice"
| "Kind (GRecord _) = KMap"
| "Kind (GResult _) = KSlice"

fun kind_String :: "kind \<Rightarrow> string" where
  "kind_String KInvalid = ''invalid''"
| "kind_String KInt = ''int''"
| "kind_String KString = ''string''"
| "kind_String KPtr = ''ptr''"
| "kind_String KSlice = ''slice''"
| "kind_String KMap = ''map''"
| "kind_String KStruct = ''struct''"

text \<open>\<open>rv.Elem()\<close> of a pointer, and the elements \<open>rv.Index(i).Interface()\<close> of a slice.\<close>

fun Elem :: "gval \<Rightarrow> gval" where
  "Elem (GPtr x) = x"
| "Elem x = GNil"

fun Elems :: "gval \<Rightarrow> gval list" where
  "Elems (GSlice xs) = xs"
| "Elems (GList l) = map GMap l"
| "Elems (GResult r) = map GRecord r"
| "Elems x = []"

text \<open>\<open>errors.New(s)\<close> is \<open>ErrorString s\<close>; \<open>ErrNoRows\<close> is the sentinel \<open>sql.ErrNoRows\<close>.\<close>

datatype error = ErrorString string | ErrNoRows

text \<open>
  A \<open>sql.Result\<close>: nil, a driver's own result (a handle, and what its \<open>RowsAffected()\<close>
  returns), or gdb's \<open>*batchSqlResult\<close>. \<open>rowsAffected\<close> is an \<open>int64\<close>.

  Modelled from the spec: the struct \<open>batchSqlResult\<close> is declared outside this file; its
  two fields are the ones \<open>doBatchInsert\<close> assigns (\<open>lastResult\<close>, \<open>rowsAffected\<close>), and its
  \<open>RowsAffected()\<close> returns the stored sum ("an AggregateExecResult wraps the last chunk's
  native handle plus the sum of rows-affected across all chunks").
\<close>

datatype sql_result =
    NilResult
  | DriverResult nat "64 word" "error option"
  | BatchSqlResult (lastResult: sql_result) (rowsAffected: "64 word")

text \<open>A call either returns or panics (a method call on a nil interface value).\<close>

datatype 'a outcome = Return 'a | Panic

fun RowsAffected :: "sql_result \<Rightarrow> (64 word \<times> error option) outcome" where
  "RowsAffected NilResult = Panic"
| "RowsAffected (DriverResult h n e) = Return (n, e)"
| "RowsAffected (BatchSqlResult l n) = Return (n, None)"

section \<open>The driver\<close>

text \<open>
  Every call that reaches a link is recorded in a trace. A link answers a call as a
  function of the trace so far, which covers every deterministic driver.
  A cursor (\<open>*sql.Rows\<close>) is what \<open>ColumnTypes()\<close> returns (name and database type name of
  each column) and the rows it will deliver: for each row what \<open>Scan\<close> returns, an error
  or the raw column values (\<open>None\<close> is SQL NULL).
\<close>

datatype event = EvExec string "gval list" | EvQuery string "gval list"

record rows =
  rows_ColumnTypes :: "error + (string \<times> string) list"
  rows_data :: "(error + string option list) list"

record link =
  link_Exec :: "event list \<Rightarrow> string \<Rightarrow> gval list \<Rightarrow> sql_result \<times> error option"
  link_Query :: "event list \<Rightarrow> string \<Rightarrow> gval list \<Rightarrow> rows option \<times> error option"

section \<open>What the file uses and does not define\<close>

text \<open>
  The methods of \<open>bs.db\<close> and the package-level helpers that \<open>gdb_base.go\<close> calls and that
  are defined elsewhere are parameters of the model, collected in one record.
  \<open>Master\<close> and \<open>Slave\<close> return a link or an error. \<open>Var_Int\<close> is \<open>(*gvar.Var).Int\<close>,
  \<open>Record_Struct\<close> is \<open>Record.Struct\<close> (its result only: the error),
  \<open>gconv_String\<close> is \<open>gconv.String\<close>.
\<close>

record db =
  getChars :: "string \<times> string"
  getPrefix :: string
  getDebug :: bool
  Master :: "error + link"
  Slave :: "error + link"
  doHandleTableName :: "string \<Rightarrow> string \<Rightarrow> string \<Rightarrow> string \<Rightarrow> string"
  doQuoteWord :: "string \<Rightarrow> string \<Rightarrow> string \<Rightarrow> string"
  formatQuery :: "string \<Rightarrow> gval list \<Rightarrow> string \<times> gval list"
  handleSqlBeforeExec :: "string \<Rightarrow> string"
  formatError :: "error option \<Rightarrow> string \<Rightarrow> gval list \<Rightarrow> error option"
  formatWhere :: "gval \<Rightarrow> gval list \<Rightarrow> string \<times> gval list"
  varToMapDeep :: "gval \<Rightarrow> Map"
  convertValue :: "string \<Rightarrow> string \<Rightarrow> gval"
  getInsertOperationByOption :: "int \<Rightarrow> string"
  gDEFAULT_BATCH_NUM :: int
  Result_List :: "Result \<Rightarrow> List"
  Record_Map :: "Record \<Rightarrow> Map"
  Record_Struct :: "Record \<Rightarrow> gval \<Rightarrow> error option"
  Var_Int :: "Value \<Rightarrow> int outcome"
  gconv_String :: "gval \<Rightarrow> string"

text \<open>The write-modes, numbered as the comment above \<open>doInsert\<close> numbers them.\<close>

definition gINSERT_OPTION_DEFAULT :: int where "gINSERT_OPTION_DEFAULT = 0"
definition gINSERT_OPTION_REPLACE :: int where "gINSERT_OPTION_REPLACE = 1"
definition gINSERT_OPTION_SAVE :: int where "gINSERT_OPTION_SAVE = 2"
definition gINSERT_OPTION_IGNORE :: int where "gINSERT_OPTION_IGNORE = 3"

section \<open>Strings and maps\<close>

fun strings_Join :: "string list \<Rightarrow> string \<Rightarrow> string" where
  "strings_Join [] sep = []"
| "strings_Join [x] sep = x"
| "strings_Join (x # y # ys) sep = x @ sep @ strings_Join (y # ys) sep"

text \<open>\<open>m[k]\<close> on a \<open>Map\<close>: the value, or nil when the key is missing.\<close>

definition Map_index :: "Map \<Rightarrow> string \<Rightarrow> gval" where
  "Map_index m k = (case map_of m k of None \<Rightarrow> GNil | Some v \<Rightarrow> v)"

section \<open>Exec\<close>

definition handleTableName :: "db \<Rightarrow> string \<Rightarrow> string" where
  "handleTableName bs table =
     (let (charLeft, charRight) = getChars bs;
          prefix = getPrefix bs
      in doHandleTableName bs table prefix charLeft charRight)"

text \<open>
  \<open>doExec\<close>: both branches of the debug test make the same \<open>link.Exec\<close> call; the debug
  branch also writes to the logger, which the model leaves out.
\<close>

definition doExec ::
  "db \<Rightarrow> link \<Rightarrow> event list \<Rightarrow> string \<Rightarrow> gval list
     \<Rightarrow> (sql_result \<times> error option) \<times> event list" where
  "doExec bs lnk tr query args =
     (let (query1, args1) = formatQuery bs query args;
          query2 = handleSqlBeforeExec bs query1;
          (result, err) = (if getDebug bs then link_Exec lnk tr query2 args1
                           else link_Exec lnk tr query2 args1)
      in ((result, formatError bs err query2 args1), tr @ [EvExec query2 args1]))"

text \<open>The idiom \<open>if link == nil { link, err = bs.db.Master() }\<close>.\<close>

definition masterLink :: "db \<Rightarrow> link option \<Rightarrow> error + link" where
  "masterLink bs lnk = (case lnk of None \<Rightarrow> Master bs | Some l \<Rightarrow> Inr l)"

section \<open>Batch insert\<close>

text \<open>
  The reflection idiom of \<open>doInsert\<close>, \<open>doBatchInsert\<close> and \<open>doUpdate\<close>: the value and its
  kind, after one pointer is followed.
\<close>

definition reflect_deref :: "gval \<Rightarrow> gval \<times> kind" where
  "reflect_deref v =
     (let rv = v;
          kind = Kind rv
      in if kind = KPtr then (Elem rv, Kind (Elem rv)) else (rv, kind))"

text \<open>The type switch and the reflection at the head of \<open>doBatchInsert\<close>.\<close>

definition listMap_of :: "db \<Rightarrow> gval \<Rightarrow> error + List" where
  "listMap_of bs list =
     (case list of
        GResult v \<Rightarrow> Inr (Result_List bs v)
      | GRecord v \<Rightarrow> Inr [Record_Map bs v]
      | GList v \<Rightarrow> Inr v
      | GMap v \<Rightarrow> Inr [v]
      | _ \<Rightarrow>
         (let (rv, kind) = reflect_deref list
          in if kind = KSlice then Inr (map (varToMapDeep bs) (Elems rv))
             else if kind = KMap \<or> kind = KStruct then Inr [varToMapDeep bs list]
             else Inl (ErrorString (''unsupported list type:'' @ kind_String kind))))"

text \<open>The loop that builds \<open>updateStr\<close> from the keys, before the prefix is put in front.\<close>

fun updateStr_loop :: "string \<Rightarrow> string \<Rightarrow> string \<Rightarrow> string list \<Rightarrow> string" where
  "updateStr_loop charL charR updateStr [] = updateStr"
| "updateStr_loop charL charR updateStr (k # ks) =
     updateStr_loop charL charR
       ((if length updateStr > 0 then updateStr @ '','' else updateStr)
          @ charL @ k @ charR @ ''=VALUES('' @ charL @ k @ charR @ '')'') ks"

definition batchNum_of :: "db \<Rightarrow> int list \<Rightarrow> int" where
  "batchNum_of bs batch =
     (if length batch > 0 \<and> hd batch > 0 then hd batch else gDEFAULT_BATCH_NUM bs)"

text \<open>
  The loop over \<open>listMap\<close>: the rows still to visit, the pending \<open>params\<close> and \<open>values\<close>,
  and the two fields of \<open>batchResult\<close>. \<open>i == listMapLen-1\<close> is "no row is left".
\<close>

fun batchLoop ::
  "db \<Rightarrow> link \<Rightarrow> string \<Rightarrow> string \<Rightarrow> string \<Rightarrow> string \<Rightarrow> string list \<Rightarrow> string \<Rightarrow> int
     \<Rightarrow> List \<Rightarrow> gval list \<Rightarrow> string list \<Rightarrow> sql_result \<Rightarrow> 64 word \<Rightarrow> event list
     \<Rightarrow> (sql_result \<times> error option) outcome \<times> event list" where
  "batchLoop bs lnk operation table keysStr updateStr keys valueHolderStr batchNum
      [] params values lastR affected tr =
     (Return (BatchSqlResult lastR affected, None), tr)"
| "batchLoop bs lnk operation table keysStr updateStr keys valueHolderStr batchNum
      (row # rest) params values lastR affected tr =
     (let params1 = params @ map (Map_index row) keys;
          values1 = values @ [valueHolderStr]
      in if int (length values1) = batchNum \<or> (rest = [] \<and> length values1 > 0) then
           (case doExec bs lnk tr
                   (operation @ '' INTO '' @ table @ ''('' @ keysStr @ '') VALUES''
                      @ strings_Join values1 '','' @ '' '' @ updateStr)
                   params1 of
              ((r, err), tr1) \<Rightarrow>
                if err \<noteq> None then (Return (r, err), tr1)
                else (case RowsAffected r of
                        Panic \<Rightarrow> (Panic, tr1)
                      | Return (n, err1) \<Rightarrow>
                          if err1 \<noteq> None then (Return (r, err1), tr1)
                          else batchLoop bs lnk operation table keysStr updateStr keys
                                 valueHolderStr batchNum rest [] [] r (affected + n) tr1))
         else batchLoop bs lnk operation table keysStr updateStr keys valueHolderStr batchNum
                rest params1 values1 lastR affected tr)"

text \<open>
  \<open>doBatchInsert\<close>. \<open>ord\<close> is the order in which the runtime's \<open>range\<close> visits the first
  row. The link is \<open>None\<close> when the caller passes nil.
\<close>

definition doBatchInsert ::
  "db \<Rightarrow> link option \<Rightarrow> string \<Rightarrow> gval \<Rightarrow> int \<Rightarrow> int list \<Rightarrow> (Map \<Rightarrow> Map) \<Rightarrow> event list
     \<Rightarrow> (sql_result \<times> error option) outcome \<times> event list" where
  "doBatchInsert bs lnk table list option batch ord tr =
     (let table1 = handleTableName bs table in
      case listMap_of bs list of
        Inl e \<Rightarrow> (Return (NilResult, Some e), tr)
      | Inr [] \<Rightarrow> (Return (NilResult, Some (ErrorString ''data list cannot be empty'')), tr)
      | Inr (first # others) \<Rightarrow>
          (case masterLink bs lnk of
             Inl e \<Rightarrow> (Return (NilResult, Some e), tr)
           | Inr lnk1 \<Rightarrow>
              (let keys = map fst (ord first);
                   holders = map (\<lambda>_. ''?'') keys;
                   (charL, charR) = getChars bs;
                   keysStr = charL @ strings_Join keys (charR @ '','' @ charL) @ charR;
                   valueHolderStr = ''('' @ strings_Join holders '','' @ '')'';
                   operation = getInsertOperationByOption bs option;
                   updateStr = (if option = gINSERT_OPTION_SAVE
                                then ''ON DUPLICATE KEY UPDATE '' @ updateStr_loop charL charR [] keys
                                else []);
                   batchNum = batchNum_of bs batch
               in batchLoop bs lnk1 operation table1 keysStr updateStr keys valueHolderStr
                    batchNum (first # others) [] [] NilResult 0 tr)))"
section \<open>Chunks and calls of a batch\<close>

text \<open>
  The rows of a batch split into chunks as the specification describes it: rows are
  appended to the pending group, which is flushed when it reaches the chunk size or when
  its row is the last one. \<open>chunk_call\<close> is the statement and the arguments of one chunk,
  built from a key list; \<open>dispatch\<close> is the call that reaches the link for a built
  statement. \<open>execChunks\<close> runs a list of calls one after the other, as the loop does with
  the chunks it flushes. \<open>exec_replies\<close> lists the link's answers to the calls of a trace.
\<close>

fun chunksAcc :: "int \<Rightarrow> 'a list \<Rightarrow> 'a list \<Rightarrow> 'a list list" where
  "chunksAcc c pend [] = []"
| "chunksAcc c pend (x # xs) =
     (if int (length (pend @ [x])) = c \<or> xs = [] then (pend @ [x]) # chunksAcc c [] xs
      else chunksAcc c (pend @ [x]) xs)"

definition chunks :: "int \<Rightarrow> 'a list \<Rightarrow> 'a list list" where
  "chunks c xs = chunksAcc c [] xs"

definition chunk_call :: "db \<Rightarrow> string \<Rightarrow> int \<Rightarrow> string list \<Rightarrow> List \<Rightarrow> string \<times> gval list" where
  "chunk_call bs table option keys chunk =
     (let (charL, charR) = getChars bs
      in (getInsertOperationByOption bs option @ '' INTO '' @ handleTableName bs table
            @ ''('' @ charL @ strings_Join keys (charR @ '','' @ charL) @ charR @ '') VALUES''
            @ strings_Join
                (replicate (length chunk)
                   (''('' @ strings_Join (replicate (length keys) ''?'') '','' @ '')'')) '',''
            @ '' ''
            @ (if option = gINSERT_OPTION_SAVE
               then ''ON DUPLICATE KEY UPDATE ''
                      @ strings_Join
                          (map (\<lambda>k. charL @ k @ charR @ ''=VALUES('' @ charL @ k @ charR @ '')'')
                             keys) '',''
               else []),
          concat (map (\<lambda>row. map (Map_index row) keys) chunk)))"

definition dispatch :: "db \<Rightarrow> string \<times> gval list \<Rightarrow> event" where
  "dispatch bs call =
     (let (query1, args1) = formatQuery bs (fst call) (snd call)
      in EvExec (handleSqlBeforeExec bs query1) args1)"

fun execChunks ::
  "db \<Rightarrow> link \<Rightarrow> (string \<times> gval list) list \<Rightarrow> sql_result \<Rightarrow> 64 word \<Rightarrow> event list
     \<Rightarrow> (sql_result \<times> error option) outcome \<times> event list" where
  "execChunks bs lnk [] lastR affected tr = (Return (BatchSqlResult lastR affected, None), tr)"
| "execChunks bs lnk (c # cs) lastR affected tr =
     (case doExec bs lnk tr (fst c) (snd c) of
        ((r, err), tr1) \<Rightarrow>
          if err \<noteq> None then (Return (r, err), tr1)
          else (case RowsAffected r of
                  Panic \<Rightarrow> (Panic, tr1)
                | Return (n, err1) \<Rightarrow>
                    if err1 \<noteq> None then (Return (r, err1), tr1)
                    else execChunks bs lnk cs r (affected + n) tr1))"

fun exec_replies :: "link \<Rightarrow> event list \<Rightarrow> event list \<Rightarrow> (sql_result \<times> error option) list" where
  "exec_replies lnk tr [] = []"
| "exec_replies lnk tr (EvExec q a # es) =
     link_Exec lnk tr q a # exec_replies lnk (tr @ [EvExec q a]) es"
| "exec_replies lnk tr (EvQuery q a # es) = exec_replies lnk (tr @ [EvQuery q a]) es"

definition reply_rows :: "sql_result \<times> error option \<Rightarrow> 64 word" where
  "reply_rows reply = (case RowsAffected (fst reply) of Return (n, e) \<Rightarrow> n | Panic \<Rightarrow> 0)"

definition exec_succeeds :: "db \<Rightarrow> link \<Rightarrow> event list \<Rightarrow> string \<Rightarrow> gval list \<Rightarrow> bool" where
  "exec_succeeds bs lnk tr q a =
     (case link_Exec lnk tr q a of
        (r, err) \<Rightarrow> formatError bs err q a = None
           \<and> (case RowsAffected r of Return (n, e) \<Rightarrow> e = None | Panic \<Rightarrow> False))"
section \<open>Single-row insert\<close>

text \<open>
  \<open>doInsert\<close>. The two \<open>range\<close> loops over \<open>dataMap\<close> (the one that fills \<open>fields\<close>,
  \<open>values\<close> and \<open>params\<close>, and the one that builds \<open>updateStr\<close>) each visit the map in an
  order of their own, \<open>ord1\<close> and \<open>ord2\<close>; \<open>ordB\<close> is the order of the loop of
  \<open>doBatchInsert\<close>, to which a slice is handed (with the table name already handled once).
\<close>

definition doInsert ::
  "db \<Rightarrow> link option \<Rightarrow> string \<Rightarrow> gval \<Rightarrow> int \<Rightarrow> int list
     \<Rightarrow> (Map \<Rightarrow> Map) \<Rightarrow> (Map \<Rightarrow> Map) \<Rightarrow> (Map \<Rightarrow> Map) \<Rightarrow> event list
     \<Rightarrow> (sql_result \<times> error option) outcome \<times> event list" where
  "doInsert bs lnk table data option batch ord1 ord2 ordB tr =
     (let table1 = handleTableName bs table;
          (rv, kind) = reflect_deref data
      in if kind = KSlice then doBatchInsert bs lnk table1 data option batch ordB tr
         else if kind = KMap \<or> kind = KStruct then
           (let dataMap = varToMapDeep bs data
            in if length dataMap = 0
               then (Return (NilResult, Some (ErrorString ''data cannot be empty'')), tr)
               else
                 (let (charL, charR) = getChars bs;
                      fields = map (\<lambda>(k, v). charL @ k @ charR) (ord1 dataMap);
                      values = map (\<lambda>(k, v). ''?'') (ord1 dataMap);
                      params = map (\<lambda>(k, v). v) (ord1 dataMap);
                      operation = getInsertOperationByOption bs option;
                      updateStr = (if option = gINSERT_OPTION_SAVE
                                   then ''ON DUPLICATE KEY UPDATE ''
                                          @ updateStr_loop charL charR [] (map fst (ord2 dataMap))
                                   else [])
                  in case masterLink bs lnk of
                       Inl e \<Rightarrow> (Return (NilResult, Some e), tr)
                     | Inr lnk1 \<Rightarrow>
                         (case doExec bs lnk1 tr
                                 (operation @ '' INTO '' @ table1 @ ''(''
                                    @ strings_Join fields '','' @ '') VALUES(''
                                    @ strings_Join values '','' @ '') '' @ updateStr)
                                 params of
                            (res, tr1) \<Rightarrow> (Return res, tr1))))
         else (Return (NilResult,
                 Some (ErrorString (''unsupported data type:'' @ kind_String kind))), tr))"

section \<open>Update\<close>

definition quoteWord :: "db \<Rightarrow> string \<Rightarrow> string" where
  "quoteWord bs s = (let (charLeft, charRight) = getChars bs in doQuoteWord bs s charLeft charRight)"

text \<open>\<open>doUpdate\<close>; \<open>ord\<close> is the order of its \<open>range\<close> over the data map.\<close>

definition doUpdate ::
  "db \<Rightarrow> link option \<Rightarrow> string \<Rightarrow> gval \<Rightarrow> string \<Rightarrow> gval list \<Rightarrow> (Map \<Rightarrow> Map) \<Rightarrow> event list
     \<Rightarrow> (sql_result \<times> error option) outcome \<times> event list" where
  "doUpdate bs lnk table data condition args ord tr =
     (let table1 = handleTableName bs table;
          (rv, kind) = reflect_deref data;
          (updates, params) =
             (if kind = KMap \<or> kind = KStruct
              then (let visited = ord (varToMapDeep bs data)
                    in (strings_Join (map (\<lambda>(k, v). quoteWord bs k @ ''=?'') visited) '','',
                        map (\<lambda>(k, v). v) visited))
              else (gconv_String bs data, []))
      in if length updates = 0
         then (Return (NilResult, Some (ErrorString ''data cannot be empty'')), tr)
         else
           (let args1 = (if length params > 0 then params @ args else args)
            in case masterLink bs lnk of
                 Inl e \<Rightarrow> (Return (NilResult, Some e), tr)
               | Inr lnk1 \<Rightarrow>
                   (case doExec bs lnk1 tr
                           (''UPDATE '' @ table1 @ '' SET '' @ updates @ condition) args1 of
                      (res, tr1) \<Rightarrow> (Return res, tr1))))"

definition Update ::
  "db \<Rightarrow> string \<Rightarrow> gval \<Rightarrow> gval \<Rightarrow> gval list \<Rightarrow> (Map \<Rightarrow> Map) \<Rightarrow> event list
     \<Rightarrow> (sql_result \<times> error option) outcome \<times> event list" where
  "Update bs table data condition args ord tr =
     (let (newWhere, newArgs) = formatWhere bs condition args;
          newWhere1 = (if newWhere \<noteq> [] then '' WHERE '' @ newWhere else newWhere)
      in doUpdate bs None table data newWhere1 newArgs ord tr)"
section \<open>The regular expressions of GetCount\<close>

text \<open>
  \<open>gregex.IsMatchString\<close> and \<open>gregex.ReplaceString\<close> are Go's \<open>regexp\<close> \<open>MatchString\<close> and
  \<open>ReplaceAllString\<close> on a compiled pattern. The two patterns of \<open>GetCount\<close> are sequences of
  three kinds of atoms: a literal under the \<open>(?i)\<close> flag, \<open>\s+\<close> and \<open>.+\<close>. \<open>match_here\<close> is the
  leftmost-first match of such a sequence at the start of a string: each atom tries the
  lengths it can take, the longest first (\<open>+\<close> is greedy), and the first choice for which
  the rest matches wins, which is the match Go's \<open>regexp\<close> reports. It returns the text
  taken by each atom; the capture groups of \<open>(SELECT)\s+(.+)\s+(FROM)\<close> are the atoms 0, 2
  and 4. Strings are byte sequences: \<open>.\<close> takes any byte but the newline (the atoms that
  follow \<open>.+\<close> in the two patterns start with an ASCII character, so a match never ends
  inside a multi-byte character), \<open>\s\<close> is tab, newline, form feed, carriage return or
  space, and under \<open>(?i)\<close> a letter matches both of its cases, \<open>s\<close> also U+017F and \<open>k\<close>
  also U+212A (in UTF-8).
\<close>

datatype atom = Lit string | SpacePlus | AnyPlus

definition is_space :: "char \<Rightarrow> bool" where
  "is_space c = (c = CHR 0x09 \<or> c = CHR 0x0A \<or> c = CHR 0x0C \<or> c = CHR 0x0D \<or> c = CHR '' '')"

definition lower :: "char \<Rightarrow> char" where
  "lower c =
     (case map_of (zip ''ABCDEFGHIJKLMNOPQRSTUVWXYZ'' ''abcdefghijklmnopqrstuvwxyz'') c of
        Some l \<Rightarrow> l
      | None \<Rightarrow> c)"

definition lit_char :: "char \<Rightarrow> string \<Rightarrow> nat option" where
  "lit_char p s =
     (case s of
        [] \<Rightarrow> None
      | c # cs \<Rightarrow>
          if lower c = lower p then Some 1
          else if lower p = CHR ''s'' \<and> take 2 s = [CHR 0xC5, CHR 0xBF] then Some 2
          else if lower p = CHR ''k'' \<and> take 3 s = [CHR 0xE2, CHR 0x84, CHR 0xAA] then Some 3
          else None)"

fun lit_match :: "string \<Rightarrow> string \<Rightarrow> nat option" where
  "lit_match [] s = Some 0"
| "lit_match (p # ps) s =
     (case lit_char p s of
        None \<Rightarrow> None
      | Some n \<Rightarrow> (case lit_match ps (drop n s) of None \<Rightarrow> None | Some k \<Rightarrow> Some (n + k)))"

fun candidates :: "atom \<Rightarrow> string \<Rightarrow> nat list" where
  "candidates (Lit l) s = (case lit_match l s of None \<Rightarrow> [] | Some n \<Rightarrow> [n])"
| "candidates SpacePlus s = rev [1 ..< Suc (length (takeWhile is_space s))]"
| "candidates AnyPlus s = rev [1 ..< Suc (length (takeWhile (\<lambda>c. c \<noteq> CHR 0x0A) s))]"

fun first_Some :: "'a option list \<Rightarrow> 'a option" where
  "first_Some [] = None"
| "first_Some (None # xs) = first_Some xs"
| "first_Some (Some x # xs) = Some x"

fun match_here :: "atom list \<Rightarrow> string \<Rightarrow> string list option" where
  "match_here [] s = Some []"
| "match_here (a # as) s =
     first_Some
       (map (\<lambda>n. case match_here as (drop n s) of
                   None \<Rightarrow> None
                 | Some ps \<Rightarrow> Some (take n s # ps))
          (candidates a s))"

text \<open>An unanchored match: at some position of the string.\<close>

fun IsMatch :: "atom list \<Rightarrow> string \<Rightarrow> bool" where
  "IsMatch re [] = (match_here re [] \<noteq> None)"
| "IsMatch re (c # cs) = (match_here re (c # cs) \<noteq> None \<or> IsMatch re cs)"

text \<open>
  Every non-overlapping match, from the left, replaced by the expansion of the template;
  \<open>skip\<close> counts the characters of the last match that are still to be passed over.
\<close>

fun ReplaceAll :: "atom list \<Rightarrow> (string list \<Rightarrow> string) \<Rightarrow> nat \<Rightarrow> string \<Rightarrow> string" where
  "ReplaceAll re repl skip [] = []"
| "ReplaceAll re repl (Suc k) (c # cs) = ReplaceAll re repl k cs"
| "ReplaceAll re repl 0 (c # cs) =
     (case match_here re (c # cs) of
        None \<Rightarrow> c # ReplaceAll re repl 0 cs
      | Some ps \<Rightarrow> repl ps @ ReplaceAll re repl (length (concat ps) - 1) cs)"

text \<open>
  \<open>(?i)SELECT\s+COUNT\(.+\)\s+FROM\<close>, \<open>(?i)(SELECT)\s+(.+)\s+(FROM)\<close> and the template
  \<open>$1 COUNT($2) $3\<close>.
\<close>

definition countPattern :: "atom list" where
  "countPattern = [Lit ''SELECT'', SpacePlus, Lit ''COUNT('', AnyPlus, Lit '')'', SpacePlus, Lit ''FROM'']"

definition selectPattern :: "atom list" where
  "selectPattern = [Lit ''SELECT'', SpacePlus, AnyPlus, SpacePlus, Lit ''FROM'']"

definition countTemplate :: "string list \<Rightarrow> string" where
  "countTemplate ps = ps ! 0 @ '' COUNT('' @ ps ! 2 @ '') '' @ ps ! 4"

text \<open>The first statement of \<open>GetCount\<close>: the query that is handed to \<open>GetValue\<close>.\<close>

definition GetCount_query :: "string \<Rightarrow> string" where
  "GetCount_query query =
     (if \<not> IsMatch countPattern query then ReplaceAll selectPattern countTemplate 0 query
      else query)"
section \<open>Queries\<close>

definition doQuery ::
  "db \<Rightarrow> link \<Rightarrow> event list \<Rightarrow> string \<Rightarrow> gval list
     \<Rightarrow> (rows option \<times> error option) \<times> event list" where
  "doQuery bs lnk tr query args =
     (let (query1, args1) = formatQuery bs query args;
          query2 = handleSqlBeforeExec bs query1;
          (rws, err) = (if getDebug bs then link_Query lnk tr query2 args1
                        else link_Query lnk tr query2 args1);
          tr1 = tr @ [EvQuery query2 args1]
      in if err = None then ((rws, None), tr1)
         else ((None, formatError bs err query2 args1), tr1))"

subsection \<open>The result materializer\<close>

text \<open>
  Memory. The driver owns one buffer per column, \<open>DriverBuf i\<close>, which it fills again for
  every row; \<open>make\<close> returns a fresh \<open>Heap\<close> address. A \<open>sql.RawBytes\<close> is nil or a slice, a
  view of the first \<open>n\<close> bytes of a buffer: what it holds is read from the memory at the
  time of the read.
\<close>

datatype addr = DriverBuf nat | Heap nat

type_synonym memory = "addr \<Rightarrow> string"

datatype RawBytes = NilBytes | Slice addr nat

fun read_bytes :: "memory \<Rightarrow> RawBytes \<Rightarrow> string" where
  "read_bytes mem NilBytes = []"
| "read_bytes mem (Slice a n) = take n (mem a)"

text \<open>
  \<open>rows.Next()\<close> moves to the next row: the driver writes the raw value of every non-null
  column of that row into the column's buffer, over the previous row's value.
\<close>

fun load_columns :: "nat \<Rightarrow> string option list \<Rightarrow> memory \<Rightarrow> memory" where
  "load_columns i [] mem = mem"
| "load_columns i (None # cs) mem = load_columns (Suc i) cs mem"
| "load_columns i (Some b # cs) mem = load_columns (Suc i) cs (mem(DriverBuf i := b))"

fun rows_Next_load :: "error + string option list \<Rightarrow> memory \<Rightarrow> memory" where
  "rows_Next_load (Inl e) mem = mem"
| "rows_Next_load (Inr cs) mem = load_columns 0 cs mem"

text \<open>
  \<open>rows.Scan(scanArgs...)\<close> with \<open>n\<close> destinations of type \<open>*sql.RawBytes\<close>: an error (the
  row's own, or the one \<open>database/sql\<close> gives when the number of destinations is not the
  number of columns), or for each column nil (NULL) or a slice of the driver's buffer.
\<close>

fun scan_values :: "nat \<Rightarrow> string option list \<Rightarrow> RawBytes list" where
  "scan_values i [] = []"
| "scan_values i (None # cs) = NilBytes # scan_values (Suc i) cs"
| "scan_values i (Some b # cs) = Slice (DriverBuf i) (length b) # scan_values (Suc i) cs"

fun rows_Scan :: "nat \<Rightarrow> error + string option list \<Rightarrow> error + RawBytes list" where
  "rows_Scan n (Inl e) = Inl e"
| "rows_Scan n (Inr cs) =
     (if length cs \<noteq> n then Inl (ErrorString ''sql: wrong number of destination arguments in Scan'')
      else Inr (scan_values 0 cs))"

text \<open>
  What a record holds for a column: \<open>gvar.New(nil)\<close>, or \<open>gvar.New(convertValue(v, type))\<close>
  where \<open>v\<close> is a slice. \<open>convertValue\<close> is defined elsewhere and may return \<open>v\<close> itself, so
  the model keeps the slice and the type name, and converts when the record is read:
  what a reader of the record finds is what the slice holds then.
\<close>

datatype stored = StoredNil | Stored RawBytes string

text \<open>\<open>row[k] = v\<close> on a map held as the list of its entries.\<close>

fun map_assign :: "(string \<times> 'v) list \<Rightarrow> string \<Rightarrow> 'v \<Rightarrow> (string \<times> 'v) list" where
  "map_assign [] k v = [(k, v)]"
| "map_assign ((k', v') # m) k v =
     (if k' = k then (k, v) # m else (k', v') # map_assign m k v)"

text \<open>
  The inner loop \<open>for i, value := range values\<close>: the values still to visit, the index
  \<open>i\<close>, the row built so far, the memory and the next fresh address.
\<close>

fun storeValues ::
  "string list \<Rightarrow> string list \<Rightarrow> RawBytes list \<Rightarrow> nat \<Rightarrow> (string \<times> stored) list \<Rightarrow> memory \<Rightarrow> nat
     \<Rightarrow> (string \<times> stored) list \<times> memory \<times> nat" where
  "storeValues columnNames columnTypes [] i row mem free = (row, mem, free)"
| "storeValues columnNames columnTypes (value # vs) i row mem free =
     (if value = NilBytes
      then storeValues columnNames columnTypes vs (Suc i)
             (map_assign row (columnNames ! i) StoredNil) mem free
      else
        (let n = (case value of Slice a n \<Rightarrow> n | NilBytes \<Rightarrow> 0);
             v = Slice (Heap free) n;
             mem1 = mem(Heap free := read_bytes mem value)
         in storeValues columnNames columnTypes vs (Suc i)
              (map_assign row (columnNames ! i) (Stored v (columnTypes ! i))) mem1 (Suc free)))"

text \<open>
  The outer loop \<open>for { Scan; ...; if !rows.Next() { break } }\<close>: the current row, the rows
  the cursor has yet to deliver, memory, next fresh address, and \<open>records\<close>.
\<close>

fun rowsLoop ::
  "string list \<Rightarrow> string list \<Rightarrow> (error + string option list) \<Rightarrow> (error + string option list) list
     \<Rightarrow> memory \<Rightarrow> nat \<Rightarrow> (string \<times> stored) list list
     \<Rightarrow> ((string \<times> stored) list list \<times> error option) \<times> memory" where
  "rowsLoop columnNames columnTypes current [] mem free records =
     (case rows_Scan (length columnNames) current of
        Inl err \<Rightarrow> ((records, Some err), mem)
      | Inr values \<Rightarrow>
          (case storeValues columnNames columnTypes values 0 [] mem free of
             (row, mem1, free1) \<Rightarrow> ((records @ [row], None), mem1)))"
| "rowsLoop columnNames columnTypes current (nxt # pending) mem free records =
     (case rows_Scan (length columnNames) current of
        Inl err \<Rightarrow> ((records, Some err), mem)
      | Inr values \<Rightarrow>
          (case storeValues columnNames columnTypes values 0 [] mem free of
             (row, mem1, free1) \<Rightarrow>
               rowsLoop columnNames columnTypes nxt pending (rows_Next_load nxt mem1) free1
                 (records @ [row])))"

text \<open>Reading a record after the function has returned, in the memory as it is then.\<close>

fun read_stored :: "db \<Rightarrow> memory \<Rightarrow> stored \<Rightarrow> Value" where
  "read_stored bs mem StoredNil = Some GNil"
| "read_stored bs mem (Stored v t) = Some (convertValue bs (read_bytes mem v) t)"

definition read_record :: "db \<Rightarrow> memory \<Rightarrow> (string \<times> stored) list \<Rightarrow> Record" where
  "read_record bs mem row = map (\<lambda>(k, s). (k, read_stored bs mem s)) row"

text \<open>
  \<open>rowsToResult_mem\<close> is \<open>rowsToResult\<close> with the records as it stores them and the memory
  it leaves; \<open>rowsToResult\<close> is what its caller reads. A nil \<open>Result\<close> and an empty one are
  both \<open>[]\<close>.
\<close>

definition rowsToResult_mem ::
  "rows \<Rightarrow> ((string \<times> stored) list list \<times> error option) \<times> memory" where
  "rowsToResult_mem rws =
     (case rows_data rws of
        [] \<Rightarrow> (([], None), (\<lambda>a. []))
      | first # pending \<Rightarrow>
          (case rows_ColumnTypes rws of
             Inl err \<Rightarrow> (([], Some err), rows_Next_load first (\<lambda>a. []))
           | Inr columns \<Rightarrow>
               (let columnTypes = map snd columns;
                    columnNames = map fst columns
                in rowsLoop columnNames columnTypes first pending
                     (rows_Next_load first (\<lambda>a. [])) 0 [])))"

definition rowsToResult :: "db \<Rightarrow> rows \<Rightarrow> Result \<times> error option" where
  "rowsToResult bs rws =
     (case rowsToResult_mem rws of
        ((records, err), mem) \<Rightarrow> (map (read_record bs mem) records, err))"

subsection \<open>GetAll and what is built on it\<close>

text \<open>A nil \<open>Record\<close> and an empty one are both \<open>[]\<close>: the file only takes their length and ranges over them.\<close>

definition doGetAll ::
  "db \<Rightarrow> link option \<Rightarrow> string \<Rightarrow> gval list \<Rightarrow> event list
     \<Rightarrow> (Result \<times> error option) \<times> event list" where
  "doGetAll bs lnk query args tr =
     (case (case lnk of None \<Rightarrow> Slave bs | Some l \<Rightarrow> Inr l) of
        Inl err \<Rightarrow> (([], Some err), tr)
      | Inr lnk1 \<Rightarrow>
          (case doQuery bs lnk1 tr query args of
             ((rws, err), tr1) \<Rightarrow>
               (case rws of
                  None \<Rightarrow> (([], err), tr1)
                | Some r \<Rightarrow> if err \<noteq> None then (([], err), tr1) else (rowsToResult bs r, tr1))))"

definition GetAll ::
  "db \<Rightarrow> string \<Rightarrow> gval list \<Rightarrow> event list \<Rightarrow> (Result \<times> error option) \<times> event list" where
  "GetAll bs query args tr = doGetAll bs None query args tr"

definition GetOne ::
  "db \<Rightarrow> string \<Rightarrow> gval list \<Rightarrow> event list \<Rightarrow> (Record \<times> error option) \<times> event list" where
  "GetOne bs query args tr =
     (case GetAll bs query args tr of
        ((list, err), tr1) \<Rightarrow>
          if err \<noteq> None then (([], err), tr1)
          else (case list of
                  first # others \<Rightarrow> ((first, None), tr1)
                | [] \<Rightarrow> (([], None), tr1)))"

definition GetStruct ::
  "db \<Rightarrow> gval \<Rightarrow> string \<Rightarrow> gval list \<Rightarrow> event list \<Rightarrow> error option \<times> event list" where
  "GetStruct bs pointer query args tr =
     (case GetOne bs query args tr of
        ((one, err), tr1) \<Rightarrow>
          if err \<noteq> None then (err, tr1)
          else if length one = 0 then (Some ErrNoRows, tr1)
          else (Record_Struct bs one pointer, tr1))"

text \<open>\<open>GetValue\<close>; \<open>ord\<close> is the order in which its \<open>range\<close> visits the record.\<close>

definition GetValue ::
  "db \<Rightarrow> string \<Rightarrow> gval list \<Rightarrow> (Record \<Rightarrow> Record) \<Rightarrow> event list
     \<Rightarrow> (Value \<times> error option) \<times> event list" where
  "GetValue bs query args ord tr =
     (case GetOne bs query args tr of
        ((one, err), tr1) \<Rightarrow>
          if err \<noteq> None then ((None, err), tr1)
          else (case ord one of
                  (k, v) # others \<Rightarrow> ((v, None), tr1)
                | [] \<Rightarrow> ((None, None), tr1)))"

definition GetCount ::
  "db \<Rightarrow> string \<Rightarrow> gval list \<Rightarrow> (Record \<Rightarrow> Record) \<Rightarrow> event list
     \<Rightarrow> (int \<times> error option) outcome \<times> event list" where
  "GetCount bs query args ord tr =
     (let query1 = GetCount_query query
      in case GetValue bs query1 args ord tr of
           ((value, err), tr1) \<Rightarrow>
             if err \<noteq> None then (Return (0, err), tr1)
             else (case Var_Int bs value of
                     Panic \<Rightarrow> (Panic, tr1)
                   | Return n \<Rightarrow> (Return (n, None), tr1)))"

section \<open>What the materializer should return\<close>

text \<open>
  The record of one row, from the values the driver delivered for it: column \<open>i\<close> is
  stored under the \<open>i\<close>-th column name, a NULL as \<open>gvar.New(nil)\<close>, any other value as the
  conversion of its bytes under the \<open>i\<close>-th type name.
\<close>

definition expected_value :: "db \<Rightarrow> string \<Rightarrow> string option \<Rightarrow> Value" where
  "expected_value bs t c = (case c of None \<Rightarrow> Some GNil | Some b \<Rightarrow> Some (convertValue bs b t))"

fun expect_from ::
  "db \<Rightarrow> string list \<Rightarrow> string list \<Rightarrow> nat \<Rightarrow> string option list \<Rightarrow> Record \<Rightarrow> Record" where
  "expect_from bs columnNames columnTypes i [] row = row"
| "expect_from bs columnNames columnTypes i (c # cs) row =
     expect_from bs columnNames columnTypes (Suc i) cs
       (map_assign row (columnNames ! i) (expected_value bs (columnTypes ! i) c))"

definition expected_record :: "db \<Rightarrow> string list \<Rightarrow> string list \<Rightarrow> string option list \<Rightarrow> Record" where
  "expected_record bs columnNames columnTypes cs = expect_from bs columnNames columnTypes 0 cs []"

text \<open>
  A stored value is the materializer's own when it is \<open>gvar.New(nil)\<close> or holds a slice of
  a \<open>Heap\<close> buffer allocated before \<open>free\<close>: it shares no memory with the driver.
\<close>

fun owned :: "nat \<Rightarrow> stored \<Rightarrow> bool" where
  "owned free StoredNil = True"
| "owned free (Stored (Slice (Heap a) n) t) = (a < free)"
| "owned free (Stored (Slice (DriverBuf i) n) t) = False"
| "owned free (Stored NilBytes t) = False"

text \<open>
  The rows a cursor delivers before its first failing \<open>Scan\<close>, and that failure if there
  is one.
\<close>

fun scanned :: "nat \<Rightarrow> (error + string option list) list \<Rightarrow> string option list list \<times> error option" where
  "scanned n [] = ([], None)"
| "scanned n (Inl e # rs) = ([], Some e)"
| "scanned n (Inr cs # rs) =
     (case rows_Scan n (Inr cs) of
        Inl e \<Rightarrow> ([], Some e)
      | Inr values \<Rightarrow> (cs # fst (scanned n rs), snd (scanned n rs)))"
section \<open>A stub driver\<close>

text \<open>
  A concrete environment on which the theorems are instantiated: double quotes as quote
  characters, helpers that leave the statement as it is, and links that answer every
  \<open>Exec\<close> with a fixed rows-affected count (\<open>stub_link\<close>) or that fail from the second call
  on (\<open>flaky_link\<close>).
\<close>

definition stub_link :: "64 word \<Rightarrow> link" where
  "stub_link n =
     \<lparr>link_Exec = (\<lambda>tr q a. (DriverResult (length tr) n None, None)),
      link_Query = (\<lambda>tr q a. (None, Some (ErrorString ''no rows here'')))\<rparr>"

definition flaky_link :: link where
  "flaky_link =
     \<lparr>link_Exec = (\<lambda>tr q a. if tr = [] then (DriverResult 0 5 None, None)
                               else (NilResult, Some (ErrorString ''boom''))),
      link_Query = (\<lambda>tr q a. (None, Some (ErrorString ''no rows here'')))\<rparr>"

definition stub_db :: db where
  "stub_db =
     \<lparr>getChars = (''\"'', ''\"''), getPrefix = [], getDebug = False,
      Master = Inr (stub_link 3), Slave = Inr (stub_link 3),
      doHandleTableName = (\<lambda>t p l r. t),
      doQuoteWord = (\<lambda>s l r. l @ s @ r),
      formatQuery = (\<lambda>q a. (q, a)),
      handleSqlBeforeExec = (\<lambda>q. q),
      formatError = (\<lambda>e q a. e),
      formatWhere = (\<lambda>c a. (case c of GString s \<Rightarrow> s | _ \<Rightarrow> [], a)),
      varToMapDeep = (\<lambda>v. case v of GMap m \<Rightarrow> m | GStruct m \<Rightarrow> m | _ \<Rightarrow> []),
      convertValue = (\<lambda>b t. GString b),
      getInsertOperationByOption =
        (\<lambda>opt. if opt = gINSERT_OPTION_REPLACE then ''REPLACE''
               else if opt = gINSERT_OPTION_IGNORE then ''INSERT IGNORE'' else ''INSERT''),
      gDEFAULT_BATCH_NUM = 10,
      Result_List = map (map (\<lambda>(k, v). (k, case v of None \<Rightarrow> GNil | Some x \<Rightarrow> x))),
      Record_Map = map (\<lambda>(k, v). (k, case v of None \<Rightarrow> GNil | Some x \<Rightarrow> x)),
      Record_Struct = (\<lambda>r p. None),
      Var_Int = (\<lambda>v. case v of Some (GInt i) \<Rightarrow> Return i | _ \<Rightarrow> Return 0),
      gconv_String = (\<lambda>v. case v of GString s \<Rightarrow> s | _ \<Rightarrow> [])\<rparr>"

text \<open>
  For queries: a link whose \<open>Query\<close> returns a given cursor, the stub environment with that
  link as its slave, and the same with an \<open>Int\<close> conversion that panics on a nil \<open>Value\<close>.
\<close>

definition query_link :: "rows \<Rightarrow> link" where
  "query_link rws =
     \<lparr>link_Exec = (\<lambda>tr q a. (DriverResult (length tr) 0 None, None)),
      link_Query = (\<lambda>tr q a. (Some rws, None))\<rparr>"

definition query_db :: "rows \<Rightarrow> db" where
  "query_db rws = stub_db\<lparr>Slave := Inr (query_link rws)\<rparr>"

definition strict_db :: "rows \<Rightarrow> db" where
  "strict_db rws =
     (query_db rws)\<lparr>Var_Int := (\<lambda>v. case v of None \<Rightarrow> Panic
                                        | Some (GInt i) \<Rightarrow> Return i
                                        | Some _ \<Rightarrow> Return 0)\<rparr>"

definition no_rows :: rows where
  "no_rows = \<lparr>rows_ColumnTypes = Inr [(''n'', ''int'')], rows_data = []\<rparr>"

definition two_rows :: rows where
  "two_rows =
     \<lparr>rows_ColumnTypes = Inr [(''name'', ''varchar''), (''nick'', ''varchar'')],
      rows_data = [Inr [Some ''alice'', None], Inr [Some ''bob'', Some []]]\<rparr>"

section \<open>The batch loop executes the chunks in order\<close>

lemma strings_Join_snoc:
  "strings_Join (xs @ [x]) sep = (if xs = [] then x else strings_Join xs sep @ sep @ x)"
  by (induction xs sep rule: strings_Join.induct) auto

lemma strings_Join_nonempty:
  "xs \<noteq> [] \<Longrightarrow> \<forall>x\<in>set xs. x \<noteq> [] \<Longrightarrow> strings_Join xs sep \<noteq> []"
  by (induction xs sep rule: strings_Join.induct) auto

lemma updateStr_loop_step:
  assumes f: "f = (\<lambda>k. cl @ k @ cr @ ''=VALUES('' @ cl @ k @ cr @ '')'')"
  shows "updateStr_loop cl cr acc (k # ks)
         = updateStr_loop cl cr ((if acc \<noteq> [] then acc @ '','' else acc) @ f k) ks"
  by (simp add: f)

lemma updateStr_loop_join_gen:
  assumes f: "f = (\<lambda>k. cl @ k @ cr @ ''=VALUES('' @ cl @ k @ cr @ '')'')"
  shows "updateStr_loop cl cr (strings_Join (map f ds) '','') ks
         = strings_Join (map f (ds @ ks)) '',''"
proof (induction ks arbitrary: ds)
  case Nil
  then show ?case by simp
next
  case (Cons k ks)
  have fne: "\<And>k. f k \<noteq> []" by (simp add: f)
  have ne: "ds \<noteq> [] \<Longrightarrow> strings_Join (map f ds) '','' \<noteq> []"
    by (rule strings_Join_nonempty) (auto simp: fne)
  have step: "(if strings_Join (map f ds) '','' \<noteq> []
               then strings_Join (map f ds) '','' @ '','' else strings_Join (map f ds) '','') @ f k
             = strings_Join (map f (ds @ [k])) '',''"
  proof (cases "ds = []")
    case True
    then show ?thesis by simp
  next
    case False
    with ne show ?thesis by (simp add: strings_Join_snoc)
  qed
  have "updateStr_loop cl cr (strings_Join (map f ds) '','') (k # ks)
        = updateStr_loop cl cr (strings_Join (map f (ds @ [k])) '','') ks"
    by (simp only: updateStr_loop_step[OF f] step)
  also have "\<dots> = strings_Join (map f ((ds @ [k]) @ ks)) '',''"
    by (rule Cons.IH)
  finally show ?case by simp
qed

lemma updateStr_loop_join:
  "updateStr_loop cl cr [] ks
     = strings_Join (map (\<lambda>k. cl @ k @ cr @ ''=VALUES('' @ cl @ k @ cr @ '')'') ks) '',''"
  using updateStr_loop_join_gen[OF refl, of cl cr "[]" ks] by simp

lemma batchLoop_execChunks:
  assumes "rows \<noteq> [] \<or> pend = []"
  shows "batchLoop bs lnk operation table keysStr updateStr keys vh c rows
           (concat (map (\<lambda>row. map (Map_index row) keys) pend))
           (replicate (length pend) vh) lastR affected tr
         = execChunks bs lnk
             (map (\<lambda>chunk. (operation @ '' INTO '' @ table @ ''('' @ keysStr @ '') VALUES''
                      @ strings_Join (replicate (length chunk) vh) '','' @ '' '' @ updateStr,
                    concat (map (\<lambda>row. map (Map_index row) keys) chunk)))
                (chunksAcc c pend rows))
             lastR affected tr"
  using assms
proof (induction rows arbitrary: pend lastR affected tr)
  case Nil
  then show ?case by simp
next
  case (Cons row rest)
  have rep: "replicate (length pend) vh @ [vh] = replicate (length (pend @ [row])) vh"
    by (simp add: replicate_append_same)
  have par: "concat (map (\<lambda>row. map (Map_index row) keys) pend) @ map (Map_index row) keys
             = concat (map (\<lambda>row. map (Map_index row) keys) (pend @ [row]))"
    by simp
  show ?case
  proof (cases "int (length (pend @ [row])) = c \<or> rest = []")
    case True
    have ih: "\<And>lastR affected tr. batchLoop bs lnk operation table keysStr updateStr keys vh c rest
           [] [] lastR affected tr
         = execChunks bs lnk
             (map (\<lambda>chunk. (operation @ '' INTO '' @ table @ ''('' @ keysStr @ '') VALUES''
                      @ strings_Join (replicate (length chunk) vh) '','' @ '' '' @ updateStr,
                    concat (map (\<lambda>row. map (Map_index row) keys) chunk)))
                (chunksAcc c [] rest))
             lastR affected tr"
      using Cons.IH[of "[]"] by simp
    show ?thesis
      using True ih
      by (simp add: replicate_append_same split: prod.splits outcome.splits)
  next
    case False
    then have "rest \<noteq> []" by simp
    then have ih: "batchLoop bs lnk operation table keysStr updateStr keys vh c rest
           (concat (map (\<lambda>row. map (Map_index row) keys) (pend @ [row])))
           (replicate (length (pend @ [row])) vh) lastR affected tr
         = execChunks bs lnk
             (map (\<lambda>chunk. (operation @ '' INTO '' @ table @ ''('' @ keysStr @ '') VALUES''
                      @ strings_Join (replicate (length chunk) vh) '','' @ '' '' @ updateStr,
                    concat (map (\<lambda>row. map (Map_index row) keys) chunk)))
                (chunksAcc c (pend @ [row]) rest))
             lastR affected tr"
      using Cons.IH[of "pend @ [row]"] by simp
    show ?thesis
      using False ih
      by (simp add: replicate_append_same)
  qed
qed


lemma dispatch_cases:
  obtains q2 a1 where "dispatch bs c = EvExec q2 a1"
  by (cases "formatQuery bs (fst c) (snd c)") (simp add: dispatch_def)

lemma doExec_dispatch:
  assumes "dispatch bs c = EvExec q2 a1"
  shows "doExec bs lnk tr (fst c) (snd c)
         = ((fst (link_Exec lnk tr q2 a1), formatError bs (snd (link_Exec lnk tr q2 a1)) q2 a1),
            tr @ [EvExec q2 a1])"
  using assms
  by (cases "formatQuery bs (fst c) (snd c)"; cases "link_Exec lnk tr q2 a1")
     (auto simp: dispatch_def doExec_def)

lemma execChunks_trace_prefix:
  "\<exists>k\<le>length cs. snd (execChunks bs lnk cs lastR affected tr) = tr @ map (dispatch bs) (take k cs)"
proof (induction cs arbitrary: lastR affected tr)
  case Nil
  then show ?case by simp
next
  case (Cons c cs)
  obtain q2 a1 where d: "dispatch bs c = EvExec q2 a1" by (rule dispatch_cases)
  note ex = doExec_dispatch[OF d, of lnk tr]
  let ?r = "fst (link_Exec lnk tr q2 a1)"
  let ?e = "formatError bs (snd (link_Exec lnk tr q2 a1)) q2 a1"
  have stop: "snd (execChunks bs lnk (c # cs) lastR affected tr) = tr @ map (dispatch bs) (take 1 (c # cs))
              \<or> (\<exists>n. execChunks bs lnk (c # cs) lastR affected tr
                       = execChunks bs lnk cs ?r (affected + n) (tr @ [EvExec q2 a1]))"
    by (cases "RowsAffected ?r") (auto simp: ex d split: prod.splits)
  then show ?case
  proof
    assume "snd (execChunks bs lnk (c # cs) lastR affected tr) = tr @ map (dispatch bs) (take 1 (c # cs))"
    then show ?thesis by (intro exI[of _ 1]) simp
  next
    assume "\<exists>n. execChunks bs lnk (c # cs) lastR affected tr
                       = execChunks bs lnk cs ?r (affected + n) (tr @ [EvExec q2 a1])"
    then obtain n where n: "execChunks bs lnk (c # cs) lastR affected tr
                       = execChunks bs lnk cs ?r (affected + n) (tr @ [EvExec q2 a1])" by blast
    from Cons.IH[of ?r "affected + n" "tr @ [EvExec q2 a1]"]
    obtain k where k: "k \<le> length cs"
      "snd (execChunks bs lnk cs ?r (affected + n) (tr @ [EvExec q2 a1]))
         = (tr @ [EvExec q2 a1]) @ map (dispatch bs) (take k cs)" by blast
    show ?thesis
      using k n d by (intro exI[of _ "Suc k"]) simp
  qed
qed

lemma exec_replies_append:
  "exec_replies lnk tr (es @ fs) = exec_replies lnk tr es @ exec_replies lnk (tr @ es) fs"
  by (induction lnk tr es rule: exec_replies.induct) auto

lemma execChunks_all_succeed:
  assumes ok: "\<And>tr q a. exec_succeeds bs lnk tr q a"
  shows "\<exists>lastR'. execChunks bs lnk cs lastR affected tr
           = (Return (BatchSqlResult lastR'
                 (affected + sum_list (map reply_rows (exec_replies lnk tr (map (dispatch bs) cs)))),
                None),
              tr @ map (dispatch bs) cs)"
proof (induction cs arbitrary: lastR affected tr)
  case Nil
  then show ?case by simp
next
  case (Cons c cs)
  obtain q2 a1 where d: "dispatch bs c = EvExec q2 a1" by (rule dispatch_cases)
  note ex = doExec_dispatch[OF d, of lnk tr]
  obtain r err where rep: "link_Exec lnk tr q2 a1 = (r, err)" by (cases "link_Exec lnk tr q2 a1")
  from ok[of tr q2 a1] rep obtain n where
    fe: "formatError bs err q2 a1 = None" and ra: "RowsAffected r = Return (n, None)"
    by (auto simp: exec_succeeds_def split: outcome.splits)
  have step: "execChunks bs lnk (c # cs) lastR affected tr
              = execChunks bs lnk cs r (affected + n) (tr @ [EvExec q2 a1])"
    by (simp add: ex rep fe ra)
  from Cons.IH[of r "affected + n" "tr @ [EvExec q2 a1]"] obtain lastR' where
    ih: "execChunks bs lnk cs r (affected + n) (tr @ [EvExec q2 a1])
           = (Return (BatchSqlResult lastR'
                 (affected + n + sum_list (map reply_rows
                     (exec_replies lnk (tr @ [EvExec q2 a1]) (map (dispatch bs) cs)))),
                None),
              (tr @ [EvExec q2 a1]) @ map (dispatch bs) cs)" by blast
  have rr: "reply_rows (r, err) = n" by (simp add: reply_rows_def ra)
  show ?case
    unfolding step ih
    by (intro exI[of _ lastR']) (simp add: d rep rr add.assoc)
qed

lemma execChunks_fail_fast:
  assumes "execChunks bs lnk cs lastR affected tr = (out, tr1)"
  shows "\<exists>es. tr1 = tr @ es \<and>
           (\<forall>i<length es. \<forall>q a r err e.
               es ! i = EvExec q a \<and> link_Exec lnk (tr @ take i es) q a = (r, err)
                 \<and> formatError bs err q a = Some e
               \<longrightarrow> Suc i = length es \<and> out = Return (r, Some e))"
  using assms
proof (induction cs arbitrary: lastR affected tr)
  case Nil
  then show ?case by simp
next
  case (Cons c cs)
  obtain q2 a1 where d: "dispatch bs c = EvExec q2 a1" by (rule dispatch_cases)
  note ex = doExec_dispatch[OF d, of lnk tr]
  obtain r0 err0 where rep: "link_Exec lnk tr q2 a1 = (r0, err0)" by (cases "link_Exec lnk tr q2 a1")
  show ?case
  proof (cases "formatError bs err0 q2 a1")
    case (Some e0)
    with Cons.prems have "out = Return (r0, Some e0)" "tr1 = tr @ [EvExec q2 a1]"
      by (auto simp: ex rep)
    then show ?thesis using rep Some by (intro exI[of _ "[EvExec q2 a1]"]) auto
  next
    case None
    show ?thesis
    proof (cases "RowsAffected r0")
      case Panic
      with Cons.prems None have "tr1 = tr @ [EvExec q2 a1]"
        by (auto simp: ex rep)
      then show ?thesis using rep None by (intro exI[of _ "[EvExec q2 a1]"]) auto
    next
      case (Return p)
      obtain n e1 where p: "p = (n, e1)" by (cases p)
      show ?thesis
      proof (cases e1)
        case (Some e)
        with Cons.prems None Return p have "tr1 = tr @ [EvExec q2 a1]"
          by (auto simp: ex rep)
        then show ?thesis using rep None by (intro exI[of _ "[EvExec q2 a1]"]) auto
      next
        case None2: None
        with Cons.prems None Return p
        have "execChunks bs lnk cs r0 (affected + n) (tr @ [EvExec q2 a1]) = (out, tr1)"
          by (auto simp: ex rep)
        from Cons.IH[OF this] obtain es where es: "tr1 = (tr @ [EvExec q2 a1]) @ es"
          and P: "\<forall>i<length es. \<forall>q a r err e.
               es ! i = EvExec q a \<and> link_Exec lnk ((tr @ [EvExec q2 a1]) @ take i es) q a = (r, err)
                 \<and> formatError bs err q a = Some e
               \<longrightarrow> Suc i = length es \<and> out = Return (r, Some e)" by blast
        show ?thesis
        proof (rule exI[of _ "EvExec q2 a1 # es"], rule conjI, goal_cases)
          case 1
          show "tr1 = tr @ EvExec q2 a1 # es" using es by simp
        next
          case 2
          show ?case
          proof (intro allI impI)
          fix i q a r err e
          assume i: "i < length (EvExec q2 a1 # es)"
            and H: "(EvExec q2 a1 # es) ! i = EvExec q a \<and>
                    link_Exec lnk (tr @ take i (EvExec q2 a1 # es)) q a = (r, err) \<and>
                    formatError bs err q a = Some e"
          show "Suc i = length (EvExec q2 a1 # es) \<and> out = Return (r, Some e)"
          proof (cases i)
            case 0
            with H rep None show ?thesis by simp
          next
            case (Suc j)
            have j: "j < length es" using i Suc by simp
            have "es ! j = EvExec q a \<and>
                  link_Exec lnk ((tr @ [EvExec q2 a1]) @ take j es) q a = (r, err) \<and>
                  formatError bs err q a = Some e"
              using H Suc by simp
            with P[rule_format, OF j, of q a r err e] show ?thesis using Suc by simp
          qed
          qed
        qed
      qed
    qed
  qed
qed

lemma chunksAcc_length:
  assumes "0 < c" "length pend < c" "xs \<noteq> [] \<or> pend = []"
  shows "length (chunksAcc (int c) pend xs) = (length pend + length xs + c - 1) div c"
  using assms
proof (induction xs arbitrary: pend)
  case Nil
  then show ?case by simp
next
  case (Cons x xs)
  show ?case
  proof (cases "Suc (length pend) = c")
    case True
    have a: "length (chunksAcc (int c) [] xs) = (length xs + c - 1) div c"
      using Cons.IH[of "[]"] Cons.prems by simp
    have "length (x # xs) = Suc (length xs)" by simp
    with True have b: "length pend + length (x # xs) + c - 1 = c + (length xs + c - 1)"
      by arith
    have "length (chunksAcc (int c) pend (x # xs)) = Suc (length (chunksAcc (int c) [] xs))"
      using True by auto
    also have "\<dots> = (c + (length xs + c - 1)) div c"
      using a Cons.prems(1) by (simp only: div_add_self1)
    finally show ?thesis by (simp only: b)
  next
    case False
    then have lt: "Suc (length pend) < c" using Cons.prems by simp
    show ?thesis
    proof (cases "xs = []")
      case True
      have "Suc (length pend) + c - 1 = length pend + c" by simp
      then have "(Suc (length pend) + c - 1) div c = 1"
        using lt by simp
      then show ?thesis using True False by simp
    next
      case False2: False
      have "length (chunksAcc (int c) (pend @ [x]) xs) = (length (pend @ [x]) + length xs + c - 1) div c"
        using Cons.IH[of "pend @ [x]"] Cons.prems lt False2 by simp
      then show ?thesis using False False2 by simp
    qed
  qed
qed

lemma ceil_div:
  assumes "0 < c"
  shows "\<lceil>real m / real c\<rceil> = int ((m + c - 1) div c)"
proof -
  define k where "k = (m + c - 1) div c"
  have 1: "k * c \<le> m + c - 1" unfolding k_def by simp
  have 2: "m + c - 1 < c + k * c" unfolding k_def using assms by (rule dividend_less_div_times)
  have a: "m \<le> k * c" using 2 assms by arith
  have b: "k * c < m + c" using 1 assms by arith
  have ra: "real m \<le> real k * real c" using a by (metis of_nat_le_iff of_nat_mult)
  have rb: "real k * real c < real m + real c" using b by (metis of_nat_less_iff of_nat_mult of_nat_add)
  have cpos: "0 < real c" using assms by simp
  have A: "real m / real c \<le> real k" using ra cpos by (simp add: pos_divide_le_eq)
  have "(real k - 1) * real c < real m" using rb by (simp add: algebra_simps)
  then have B: "real k - 1 < real m / real c" using cpos by (simp add: pos_less_divide_eq)
  have "\<lceil>real m / real c\<rceil> = int k"
    by (rule ceiling_unique) (use A B in simp_all)
  then show ?thesis by (simp add: k_def)
qed

lemma chunksAcc_concat: "xs \<noteq> [] \<or> pend = [] \<Longrightarrow> concat (chunksAcc c pend xs) = pend @ xs"
proof (induction xs arbitrary: pend)
  case Nil
  then show ?case by simp
next
  case (Cons x xs)
  show ?case
  proof (cases "int (length (pend @ [x])) = c \<or> xs = []")
    case True
    then show ?thesis using Cons.IH[of "[]"] by auto
  next
    case False
    then show ?thesis using Cons.IH[of "pend @ [x]"] by auto
  qed
qed

lemma chunksAcc_nonempty: "ch \<in> set (chunksAcc c pend xs) \<Longrightarrow> ch \<noteq> []"
proof (induction xs arbitrary: pend)
  case Nil
  then show ?case by simp
next
  case (Cons x xs)
  then show ?case by (auto split: if_splits)
qed

lemma doBatchInsert_execChunks:
  assumes "listMap_of bs list = Inr (first # others)" "masterLink bs lnk = Inr lnk1"
  shows "doBatchInsert bs lnk table list option batch ord tr
         = execChunks bs lnk1
             (map (chunk_call bs table option (map fst (ord first)))
                (chunks (batchNum_of bs batch) (first # others)))
             NilResult 0 tr"
proof -
  define keys where "keys = map fst (ord first)"
  obtain cl cr where ch: "getChars bs = (cl, cr)" by (cases "getChars bs")
  let ?op = "getInsertOperationByOption bs option"
  let ?t = "handleTableName bs table"
  let ?ks = "cl @ strings_Join keys (cr @ '','' @ cl) @ cr"
  let ?us = "if option = gINSERT_OPTION_SAVE
             then ''ON DUPLICATE KEY UPDATE '' @ updateStr_loop cl cr [] keys else []"
  let ?vh = "''('' @ strings_Join (map (\<lambda>_. ''?'') keys) '','' @ '')''"
  let ?c = "batchNum_of bs batch"
  have L: "doBatchInsert bs lnk table list option batch ord tr
           = batchLoop bs lnk1 ?op ?t ?ks ?us keys ?vh ?c (first # others) [] [] NilResult 0 tr"
    unfolding doBatchInsert_def
    by (simp add: assms ch Let_def keys_def del: batchLoop.simps)
  have R: "batchLoop bs lnk1 ?op ?t ?ks ?us keys ?vh ?c (first # others) [] [] NilResult 0 tr
           = execChunks bs lnk1
               (map (\<lambda>chunk. (?op @ '' INTO '' @ ?t @ ''('' @ ?ks @ '') VALUES''
                        @ strings_Join (replicate (length chunk) ?vh) '','' @ '' '' @ ?us,
                      concat (map (\<lambda>row. map (Map_index row) keys) chunk)))
                  (chunksAcc ?c [] (first # others)))
               NilResult 0 tr"
    using batchLoop_execChunks[of "first # others" "[]" bs lnk1 ?op ?t ?ks ?us keys ?vh ?c NilResult 0 tr]
    by (simp del: batchLoop.simps chunksAcc.simps)
  have M: "(\<lambda>chunk. (?op @ '' INTO '' @ ?t @ ''('' @ ?ks @ '') VALUES''
                        @ strings_Join (replicate (length chunk) ?vh) '','' @ '' '' @ ?us,
                      concat (map (\<lambda>row. map (Map_index row) keys) chunk)))
           = chunk_call bs table option keys"
    by (rule ext) (simp add: chunk_call_def ch updateStr_loop_join map_replicate_const)
  have "doBatchInsert bs lnk table list option batch ord tr
        = execChunks bs lnk1
            (map (chunk_call bs table option keys) (chunks ?c (first # others))) NilResult 0 tr"
    by (simp only: L R M chunks_def)
  then show ?thesis
    by (simp only: keys_def)
qed

text \<open>With a positive chunk size, \<open>chunks\<close> cuts the rows into consecutive groups of that size.\<close>

lemma chunksAcc_take_drop:
  assumes "length pend < c" "xs \<noteq> []"
  shows "chunksAcc (int c) pend xs
         = take c (pend @ xs) # chunksAcc (int c) [] (drop (c - length pend) xs)"
  using assms
proof (induction xs arbitrary: pend)
  case Nil
  then show ?case by simp
next
  case (Cons x xs)
  show ?case
  proof (cases "Suc (length pend) = c")
    case True
    then have "c - length pend = Suc 0" by simp
    then show ?thesis using True by auto
  next
    case False
    then have lt: "Suc (length pend) < c" using Cons.prems by simp
    show ?thesis
    proof (cases "xs = []")
      case True
      then show ?thesis using False lt by auto
    next
      case xs: False
      have d: "drop (c - length pend) (x # xs) = drop (c - length (pend @ [x])) xs"
        using lt by (simp add: drop_Cons')
      have "chunksAcc (int c) pend (x # xs) = chunksAcc (int c) (pend @ [x]) xs"
        using False xs by auto
      also have "\<dots> = take c ((pend @ [x]) @ xs) # chunksAcc (int c) [] (drop (c - length (pend @ [x])) xs)"
        using Cons.IH[of "pend @ [x]"] lt xs by simp
      finally show ?thesis using d by simp
    qed
  qed
qed

lemma chunks_take_drop:
  "0 < c \<Longrightarrow> xs \<noteq> [] \<Longrightarrow> chunks (int c) xs = take c xs # chunks (int c) (drop c xs)"
  using chunksAcc_take_drop[of "[]" c xs] by (simp add: chunks_def)
section \<open>Batch insert: the claims\<close>

lemmas stub_simps = doBatchInsert_def listMap_of_def reflect_deref_def masterLink_def stub_db_def stub_link_def
  flaky_link_def batchNum_of_def handleTableName_def doExec_def Map_index_def
  gINSERT_OPTION_DEFAULT_def gINSERT_OPTION_SAVE_def gINSERT_OPTION_REPLACE_def
  gINSERT_OPTION_IGNORE_def

text \<open>
  C1. A batch insert of \<open>m \<ge> 1\<close> rows with chunk size \<open>c > 0\<close>, in any write-mode,
  through a link whose every \<open>Exec\<close> succeeds (no error from the call, none from
  \<open>RowsAffected\<close>), returns the aggregate result with a nil error; the calls it adds to the
  trace are \<open>Exec\<close> calls, there are exactly \<open>\<lceil>m / c\<rceil>\<close> of them, and the aggregate's
  \<open>rowsAffected\<close> is the sum (in \<open>int64\<close>, as Go adds them) of the rows-affected that the
  link reported for each of these calls.
\<close>

theorem doBatchInsert_exec_calls:
  assumes rows: "listMap_of bs list = Inr rows" and ne: "rows \<noteq> []"
    and lnk: "masterLink bs lnk = Inr lnk1"
    and c: "batchNum_of bs batch = int c" and cpos: "0 < c"
    and ok: "\<forall>tr q a. exec_succeeds bs lnk1 tr q a"
  shows "\<exists>calls lastR.
           doBatchInsert bs lnk table list option batch ord tr
             = (Return (BatchSqlResult lastR
                   (sum_list (map reply_rows (exec_replies lnk1 tr (map (dispatch bs) calls)))),
                  None),
                tr @ map (dispatch bs) calls)
           \<and> int (length calls) = \<lceil>real (length rows) / real c\<rceil>"
proof -
  obtain first others where fo: "rows = first # others" using ne by (cases rows) auto
  let ?calls = "map (chunk_call bs table option (map fst (ord first)))
                  (chunks (batchNum_of bs batch) (first # others))"
  have E: "doBatchInsert bs lnk table list option batch ord tr
           = execChunks bs lnk1 ?calls NilResult 0 tr"
    using rows lnk fo by (simp only: doBatchInsert_execChunks)
  from execChunks_all_succeed[of bs lnk1 ?calls NilResult 0 tr] ok
  obtain lastR where R: "execChunks bs lnk1 ?calls NilResult 0 tr
           = (Return (BatchSqlResult lastR
                 (0 + sum_list (map reply_rows (exec_replies lnk1 tr (map (dispatch bs) ?calls)))),
                None),
              tr @ map (dispatch bs) ?calls)" by blast
  have "length ?calls = (length rows + c - 1) div c"
    using chunksAcc_length[of c "[]" rows] cpos ne fo c by (simp add: chunks_def)
  then have n: "int (length ?calls) = \<lceil>real (length rows) / real c\<rceil>"
    using ceil_div[OF cpos, of "length rows"] by simp
  show ?thesis
    using E R n by (intro exI[of _ ?calls] exI[of _ lastR]) simp
qed

text \<open>An instance: three rows in chunks of two through the stub link make two calls.\<close>

theorem doBatchInsert_exec_calls_witness:
  "listMap_of stub_db (GList [[(''id'', GInt 1)], [(''id'', GInt 2)], [(''id'', GInt 3)]])
     = Inr [[(''id'', GInt 1)], [(''id'', GInt 2)], [(''id'', GInt 3)]]
   \<and> masterLink stub_db None = Inr (stub_link 3)
   \<and> batchNum_of stub_db [2] = int 2
   \<and> (\<forall>tr q a. exec_succeeds stub_db (stub_link 3) tr q a)
   \<and> (\<exists>calls lastR.
         doBatchInsert stub_db None ''t''
             (GList [[(''id'', GInt 1)], [(''id'', GInt 2)], [(''id'', GInt 3)]])
             gINSERT_OPTION_DEFAULT [2] (\<lambda>m. m) []
           = (Return (BatchSqlResult lastR
                 (sum_list (map reply_rows
                    (exec_replies (stub_link 3) [] (map (dispatch stub_db) calls)))),
                None),
              [] @ map (dispatch stub_db) calls)
         \<and> int (length calls) = 2)"
proof -
  let ?rows = "[[(''id'', GInt 1)], [(''id'', GInt 2)], [(''id'', GInt 3)]]"
  have h1: "listMap_of stub_db (GList ?rows) = Inr ?rows" by (simp add: listMap_of_def)
  have h2: "?rows \<noteq> []" by simp
  have h3: "masterLink stub_db None = Inr (stub_link 3)" by (simp add: masterLink_def stub_db_def)
  have h4: "batchNum_of stub_db [2] = int 2" by (simp add: batchNum_of_def)
  have h5: "(0::nat) < 2" by simp
  have h6: "\<forall>tr q a. exec_succeeds stub_db (stub_link 3) tr q a"
    by (simp add: exec_succeeds_def stub_db_def stub_link_def)
  from doBatchInsert_exec_calls[OF h1 h2 h3 h4 h5 h6, of "''t''" gINSERT_OPTION_DEFAULT "\<lambda>m. m" "[]"]
  have "\<exists>calls lastR.
         doBatchInsert stub_db None ''t'' (GList ?rows) gINSERT_OPTION_DEFAULT [2] (\<lambda>m. m) []
           = (Return (BatchSqlResult lastR
                 (sum_list (map reply_rows
                    (exec_replies (stub_link 3) [] (map (dispatch stub_db) calls)))),
                None),
              [] @ map (dispatch stub_db) calls)
         \<and> int (length calls) = 2"
    by simp
  with h1 h3 h4 h6 show ?thesis by blast
qed

text \<open>
  C2, as the claim states it, fails: when the second chunk fails after a first chunk that
  affected five rows, the result returned with the error is the failing call's own (nil)
  result, not the aggregate over the first chunk.
\<close>

theorem doBatchInsert_partial_aggregate_counterexample:
  "fst (doBatchInsert stub_db (Some flaky_link) ''t''
          (GList [[(''id'', GInt 1)], [(''id'', GInt 2)]]) gINSERT_OPTION_DEFAULT [1] (\<lambda>m. m) [])
     = Return (NilResult, Some (ErrorString ''boom''))
   \<and> exec_replies flaky_link []
        (snd (doBatchInsert stub_db (Some flaky_link) ''t''
          (GList [[(''id'', GInt 1)], [(''id'', GInt 2)]]) gINSERT_OPTION_DEFAULT [1] (\<lambda>m. m) []))
     = [(DriverResult 0 5 None, None), (NilResult, Some (ErrorString ''boom''))]
   \<and> fst (doBatchInsert stub_db (Some flaky_link) ''t''
          (GList [[(''id'', GInt 1)], [(''id'', GInt 2)]]) gINSERT_OPTION_DEFAULT [1] (\<lambda>m. m) [])
     \<noteq> Return (BatchSqlResult (DriverResult 0 5 None) 5, Some (ErrorString ''boom''))"
  by (simp add: stub_simps)

text \<open>
  C2, amended. Whatever the link answers: if, in a run of \<open>doBatchInsert\<close>, the \<open>i\<close>-th
  call it made got an error from the dispatcher, then that call is the last one of the
  run (no further chunk is attempted, and every earlier call had succeeded), and the run
  returns that error together with the result that the failing call itself returned; the
  aggregate accumulated so far is dropped.
\<close>

theorem doBatchInsert_stops_at_first_error:
  assumes lnk: "masterLink bs lnk = Inr lnk1"
    and run: "doBatchInsert bs lnk table list option batch ord tr = (out, tr1)"
  shows "\<exists>es. tr1 = tr @ es \<and>
           (\<forall>i<length es. \<forall>q a r err e.
               es ! i = EvExec q a \<and> link_Exec lnk1 (tr @ take i es) q a = (r, err)
                 \<and> formatError bs err q a = Some e
               \<longrightarrow> Suc i = length es \<and> out = Return (r, Some e))"
proof (cases "listMap_of bs list")
  case (Inl e)
  with run have "tr1 = tr" by (simp add: doBatchInsert_def)
  then show ?thesis by simp
next
  case (Inr rows)
  show ?thesis
  proof (cases rows)
    case Nil
    with run Inr have "tr1 = tr" by (simp add: doBatchInsert_def)
    then show ?thesis by simp
  next
    case (Cons first others)
    with Inr lnk run have "execChunks bs lnk1
             (map (chunk_call bs table option (map fst (ord first)))
                (chunks (batchNum_of bs batch) (first # others)))
             NilResult 0 tr = (out, tr1)"
      by (simp only: doBatchInsert_execChunks)
    then show ?thesis by (rule execChunks_fail_fast)
  qed
qed

text \<open>An instance: three rows in chunks of one; the second call fails, the third is never made.\<close>

theorem doBatchInsert_stops_at_first_error_witness:
  "masterLink stub_db (Some flaky_link) = Inr flaky_link
   \<and> (\<exists>es. snd (doBatchInsert stub_db (Some flaky_link) ''t''
                 (GList [[(''id'', GInt 1)], [(''id'', GInt 2)], [(''id'', GInt 3)]])
                 gINSERT_OPTION_DEFAULT [1] (\<lambda>m. m) []) = [] @ es
          \<and> length es = 2
          \<and> fst (doBatchInsert stub_db (Some flaky_link) ''t''
                 (GList [[(''id'', GInt 1)], [(''id'', GInt 2)], [(''id'', GInt 3)]])
                 gINSERT_OPTION_DEFAULT [1] (\<lambda>m. m) []) = Return (NilResult, Some (ErrorString ''boom'')))"
proof -
  let ?run = "doBatchInsert stub_db (Some flaky_link) ''t''
                 (GList [[(''id'', GInt 1)], [(''id'', GInt 2)], [(''id'', GInt 3)]])
                 gINSERT_OPTION_DEFAULT [1] (\<lambda>m. m) []"
  have h1: "masterLink stub_db (Some flaky_link) = Inr flaky_link" by (simp add: masterLink_def)
  have h2: "?run = (fst ?run, snd ?run)" by simp
  from doBatchInsert_stops_at_first_error[OF h1 h2]
  obtain es where es: "snd ?run = [] @ es"
    and P: "\<forall>i<length es. \<forall>q a r err e.
               es ! i = EvExec q a \<and> link_Exec flaky_link ([] @ take i es) q a = (r, err)
                 \<and> formatError stub_db err q a = Some e
               \<longrightarrow> Suc i = length es \<and> fst ?run = Return (r, Some e)" by blast
  have tr: "snd ?run = [EvExec ''INSERT INTO t(\"id\") VALUES(?) '' [GInt 1],
                        EvExec ''INSERT INTO t(\"id\") VALUES(?) '' [GInt 2]]"
    by (simp add: stub_simps)
  with es have es2: "es = [EvExec ''INSERT INTO t(\"id\") VALUES(?) '' [GInt 1],
                        EvExec ''INSERT INTO t(\"id\") VALUES(?) '' [GInt 2]]" by simp
  have "1 < length es" using es2 by simp
  from P[rule_format, OF this, of "''INSERT INTO t(\"id\") VALUES(?) ''" "[GInt 2]"
        NilResult "Some (ErrorString ''boom'')" "ErrorString ''boom''"]
  have "fst ?run = Return (NilResult, Some (ErrorString ''boom''))"
    by (simp add: es2 flaky_link_def stub_db_def)
  with h1 es es2 show ?thesis by simp
qed

text \<open>
  C3. An empty row list is refused before any link is asked for and before any call:
  the trace is unchanged.
\<close>

lemma doBatchInsert_empty_list:
  assumes "listMap_of bs list = Inr []"
  shows "doBatchInsert bs lnk table list option batch ord tr
         = (Return (NilResult, Some (ErrorString ''data list cannot be empty'')), tr)"
  using assms by (simp add: doBatchInsert_def)

text \<open>
  C3, the second half, does not hold of the code: a batch whose first row has no column
  is not refused. \<open>doBatchInsert\<close> builds a statement with an empty column list and sends
  it to the link, where the single-row path \<open>doInsert\<close> answers "data cannot be empty".
\<close>

theorem doBatchInsert_empty_columns_reach_driver:
  "doBatchInsert stub_db None ''t'' (GList [[]]) gINSERT_OPTION_DEFAULT [] (\<lambda>m. m) []
     = (Return (BatchSqlResult (DriverResult 0 3 None) 3, None),
        [EvExec ''INSERT INTO t(\"\") VALUES() '' []])"
  by (simp add: stub_simps)

text \<open>
  C9. In every run the calls that reach the link are, in order, the calls of the first
  chunks of the batch, each built by \<open>chunk_call\<close> from the keys of the first row alone
  (as \<open>range\<close> visits them): the column list and the duplicate-key clause are the same in
  every statement, and the arguments of a chunk are the values found under these keys in
  each of its rows, in that order (nil where a row lacks the key; a key that only a later
  row has is never read). No row is checked against the first: when every call succeeds,
  all chunks are sent and the error is nil, whatever the keys of the later rows.
\<close>

theorem doBatchInsert_columns_from_first_row:
  assumes rows: "listMap_of bs list = Inr (first # others)"
    and lnk: "masterLink bs lnk = Inr lnk1"
  shows "(\<exists>k. k \<le> length (chunks (batchNum_of bs batch) (first # others)) \<and>
            snd (doBatchInsert bs lnk table list option batch ord tr)
              = tr @ map (dispatch bs)
                       (map (chunk_call bs table option (map fst (ord first)))
                          (take k (chunks (batchNum_of bs batch) (first # others)))))
         \<and> ((\<forall>tr q a. exec_succeeds bs lnk1 tr q a) \<longrightarrow>
              (\<exists>res. doBatchInsert bs lnk table list option batch ord tr
                 = (Return (res, None),
                    tr @ map (dispatch bs)
                           (map (chunk_call bs table option (map fst (ord first)))
                              (chunks (batchNum_of bs batch) (first # others))))))"
proof -
  let ?calls = "map (chunk_call bs table option (map fst (ord first)))
                  (chunks (batchNum_of bs batch) (first # others))"
  have E: "doBatchInsert bs lnk table list option batch ord tr
           = execChunks bs lnk1 ?calls NilResult 0 tr"
    using rows lnk by (simp only: doBatchInsert_execChunks)
  from execChunks_trace_prefix[of ?calls bs lnk1 NilResult 0 tr]
  obtain k where k: "k \<le> length ?calls"
    "snd (execChunks bs lnk1 ?calls NilResult 0 tr) = tr @ map (dispatch bs) (take k ?calls)"
    by blast
  have A: "\<exists>k. k \<le> length (chunks (batchNum_of bs batch) (first # others)) \<and>
            snd (doBatchInsert bs lnk table list option batch ord tr)
              = tr @ map (dispatch bs)
                       (map (chunk_call bs table option (map fst (ord first)))
                          (take k (chunks (batchNum_of bs batch) (first # others))))"
    using k by (intro exI[of _ k]) (simp add: E take_map)
  have B: "(\<forall>tr q a. exec_succeeds bs lnk1 tr q a) \<longrightarrow>
              (\<exists>res. doBatchInsert bs lnk table list option batch ord tr
                 = (Return (res, None), tr @ map (dispatch bs) ?calls))"
  proof
    assume ok: "\<forall>tr q a. exec_succeeds bs lnk1 tr q a"
    from execChunks_all_succeed[of bs lnk1 ?calls NilResult 0 tr] ok
    obtain lastR where "execChunks bs lnk1 ?calls NilResult 0 tr
           = (Return (BatchSqlResult lastR
                 (0 + sum_list (map reply_rows (exec_replies lnk1 tr (map (dispatch bs) ?calls)))),
                None),
              tr @ map (dispatch bs) ?calls)" by blast
    then show "\<exists>res. doBatchInsert bs lnk table list option batch ord tr
                 = (Return (res, None), tr @ map (dispatch bs) ?calls)"
      by (simp add: E)
  qed
  from A B show ?thesis by blast
qed

text \<open>
  An instance with diverging keys: the second row has \<open>nick\<close> where the first has \<open>name\<close>;
  its \<open>nick\<close> is dropped and nil is sent for \<open>name\<close>, with no error.
\<close>

theorem doBatchInsert_columns_from_first_row_witness:
  "listMap_of stub_db (GList [[(''id'', GInt 1), (''name'', GString ''a'')],
                              [(''id'', GInt 2), (''nick'', GString ''b'')]])
     = Inr [[(''id'', GInt 1), (''name'', GString ''a'')],
            [(''id'', GInt 2), (''nick'', GString ''b'')]]
   \<and> masterLink stub_db None = Inr (stub_link 3)
   \<and> (\<forall>tr q a. exec_succeeds stub_db (stub_link 3) tr q a)
   \<and> (\<exists>res. doBatchInsert stub_db None ''t''
                (GList [[(''id'', GInt 1), (''name'', GString ''a'')],
                        [(''id'', GInt 2), (''nick'', GString ''b'')]])
                gINSERT_OPTION_SAVE [] (\<lambda>m. m) []
         = (Return (res, None),
            [EvExec (''INSERT INTO t(\"id\",\"name\") VALUES(?,?),(?,?) ''
                       @ ''ON DUPLICATE KEY UPDATE \"id\"=VALUES(\"id\"),\"name\"=VALUES(\"name\")'')
               [GInt 1, GString ''a'', GInt 2, GNil]]))"
proof -
  let ?r1 = "[(''id'', GInt 1), (''name'', GString ''a'')]"
  let ?r2 = "[(''id'', GInt 2), (''nick'', GString ''b'')]"
  have h1: "listMap_of stub_db (GList [?r1, ?r2]) = Inr (?r1 # [?r2])" by (simp add: listMap_of_def)
  have h2: "masterLink stub_db None = Inr (stub_link 3)" by (simp add: masterLink_def stub_db_def)
  have h3: "\<forall>tr q a. exec_succeeds stub_db (stub_link 3) tr q a"
    by (simp add: exec_succeeds_def stub_db_def stub_link_def)
  have calls: "map (dispatch stub_db)
                 (map (chunk_call stub_db ''t'' gINSERT_OPTION_SAVE (map fst ((\<lambda>m. m) ?r1)))
                    (chunks (batchNum_of stub_db []) (?r1 # [?r2])))
               = [EvExec (''INSERT INTO t(\"id\",\"name\") VALUES(?,?),(?,?) ''
                       @ ''ON DUPLICATE KEY UPDATE \"id\"=VALUES(\"id\"),\"name\"=VALUES(\"name\")'')
                    [GInt 1, GString ''a'', GInt 2, GNil]]"
    by (simp add: dispatch_def chunk_call_def chunks_def batchNum_of_def stub_db_def
          handleTableName_def Map_index_def gINSERT_OPTION_SAVE_def gINSERT_OPTION_REPLACE_def
          gINSERT_OPTION_IGNORE_def)
  from doBatchInsert_columns_from_first_row[OF h1 h2, where batch="[]" and option=gINSERT_OPTION_SAVE and table="''t''"
        and ord="\<lambda>m. m" and tr="[]"] h3
  have "\<exists>res. doBatchInsert stub_db None ''t'' (GList [?r1, ?r2]) gINSERT_OPTION_SAVE [] (\<lambda>m. m) []
         = (Return (res, None),
            [] @ map (dispatch stub_db)
                 (map (chunk_call stub_db ''t'' gINSERT_OPTION_SAVE (map fst ((\<lambda>m. m) ?r1)))
                    (chunks (batchNum_of stub_db []) (?r1 # [?r2]))))"
    by blast
  then have "\<exists>res. doBatchInsert stub_db None ''t'' (GList [?r1, ?r2]) gINSERT_OPTION_SAVE [] (\<lambda>m. m) []
         = (Return (res, None),
            [EvExec (''INSERT INTO t(\"id\",\"name\") VALUES(?,?),(?,?) ''
                       @ ''ON DUPLICATE KEY UPDATE \"id\"=VALUES(\"id\"),\"name\"=VALUES(\"name\")'')
                    [GInt 1, GString ''a'', GInt 2, GNil]])"
    by (simp only: calls append_Nil)
  with h1 h2 h3 show ?thesis by simp
qed
section \<open>Update and single-row insert: the claims\<close>

lemma strings_Join_eq_Nil_iff:
  assumes "\<forall>x\<in>set xs. x \<noteq> []"
  shows "strings_Join xs sep = [] \<longleftrightarrow> xs = []"
  using assms strings_Join_nonempty[of xs sep] by (cases xs) auto

lemma doUpdate_statement:
  assumes kind: "snd (reflect_deref data) = KMap \<or> snd (reflect_deref data) = KStruct"
    and lnk: "masterLink bs lnk = Inr lnk1"
  shows "doUpdate bs lnk table data condition args ord tr
         = (if ord (varToMapDeep bs data) = []
            then (Return (NilResult, Some (ErrorString ''data cannot be empty'')), tr)
            else (case doExec bs lnk1 tr
                         (''UPDATE '' @ handleTableName bs table @ '' SET ''
                            @ strings_Join (map (\<lambda>k. quoteWord bs k @ ''=?'')
                                              (map fst (ord (varToMapDeep bs data)))) '',''
                            @ condition)
                         (map snd (ord (varToMapDeep bs data)) @ args) of
                    (res, tr1) \<Rightarrow> (Return res, tr1)))"
proof -
  define visited where "visited = ord (varToMapDeep bs data)"
  obtain rv k where rd: "reflect_deref data = (rv, k)" by (cases "reflect_deref data")
  with kind have k: "k = KMap \<or> k = KStruct" by simp
  have m1: "map (\<lambda>(k, v). quoteWord bs k @ ''=?'') visited
            = map (\<lambda>k. quoteWord bs k @ ''=?'') (map fst visited)"
    by (simp add: case_prod_unfold)
  have m2: "map (\<lambda>(k, v). v) visited = map snd visited"
    by (simp add: case_prod_unfold)
  have e: "strings_Join (map ((\<lambda>k. quoteWord bs k @ ''=?'') \<circ> fst) visited) '','' = []
           \<longleftrightarrow> visited = []"
    using strings_Join_eq_Nil_iff[of "map ((\<lambda>k. quoteWord bs k @ ''=?'') \<circ> fst) visited" "'',''"]
    by auto
  show ?thesis
    unfolding doUpdate_def visited_def[symmetric]
    using k by (auto simp add: rd Let_def m1 m2 e lnk split: prod.splits)
qed

text \<open>
  C5. An \<open>Update\<close> whose data is a map or a struct (or a pointer to one), whose condition
  the formatter turns into \<open>newWhere\<close> with arguments \<open>newArgs\<close>, and for which a master link
  is there: when the data has no entry the call fails with "data cannot be empty" and
  nothing reaches the link; otherwise exactly one statement is executed,
  \<open>UPDATE <table> SET <assignments><condition>\<close>, where the assignments are
  \<open>quoteWord(column)=?\<close> joined by commas in the order in which the data is visited, the
  condition is \<open>" WHERE " + newWhere\<close> (nothing when \<open>newWhere\<close> is empty), and the argument
  list is the data values in that same order followed by the condition's arguments.
\<close>

theorem Update_statement:
  assumes kind: "snd (reflect_deref data) = KMap \<or> snd (reflect_deref data) = KStruct"
    and w: "formatWhere bs condition args = (newWhere, newArgs)"
    and lnk: "Master bs = Inr lnk1"
  shows "Update bs table data condition args ord tr
         = (if ord (varToMapDeep bs data) = []
            then (Return (NilResult, Some (ErrorString ''data cannot be empty'')), tr)
            else (case doExec bs lnk1 tr
                         (''UPDATE '' @ handleTableName bs table @ '' SET ''
                            @ strings_Join (map (\<lambda>k. quoteWord bs k @ ''=?'')
                                              (map fst (ord (varToMapDeep bs data)))) '',''
                            @ (if newWhere \<noteq> [] then '' WHERE '' @ newWhere else []))
                         (map snd (ord (varToMapDeep bs data)) @ newArgs) of
                    (res, tr1) \<Rightarrow> (Return res, tr1)))"
proof -
  have l: "masterLink bs None = Inr lnk1" using lnk by (simp add: masterLink_def)
  show ?thesis
    unfolding Update_def w
    by (simp add: doUpdate_statement[OF kind l] Let_def)
qed

text \<open>
  The instance of the claim: data \<open>{"name": "john"}\<close>, condition \<open>("id=?", 10000)\<close>, a table
  that resolves to \<open>users\<close> and double quotes as quote characters.
\<close>

theorem Update_statement_witness:
  "snd (reflect_deref (GMap [(''name'', GString ''john'')])) = KMap
   \<and> formatWhere stub_db (GString ''id=?'') [GInt 10000] = (''id=?'', [GInt 10000])
   \<and> Master stub_db = Inr (stub_link 3)
   \<and> Update stub_db ''users'' (GMap [(''name'', GString ''john'')]) (GString ''id=?'') [GInt 10000]
        (\<lambda>m. m) []
      = (Return (DriverResult 0 3 None, None),
         [EvExec ''UPDATE users SET \"name\"=? WHERE id=?'' [GString ''john'', GInt 10000]])"
proof -
  have h1: "snd (reflect_deref (GMap [(''name'', GString ''john'')])) = KMap
            \<or> snd (reflect_deref (GMap [(''name'', GString ''john'')])) = KStruct"
    by (simp add: reflect_deref_def)
  have h2: "formatWhere stub_db (GString ''id=?'') [GInt 10000] = (''id=?'', [GInt 10000])"
    by (simp add: stub_db_def)
  have h3: "Master stub_db = Inr (stub_link 3)" by (simp add: stub_db_def)
  have "Update stub_db ''users'' (GMap [(''name'', GString ''john'')]) (GString ''id=?'') [GInt 10000]
        (\<lambda>m. m) []
      = (Return (DriverResult 0 3 None, None),
         [EvExec ''UPDATE users SET \"name\"=? WHERE id=?'' [GString ''john'', GInt 10000]])"
    unfolding Update_statement[OF h1 h2 h3]
    by (simp add: stub_db_def stub_link_def doExec_def handleTableName_def quoteWord_def)
  with h2 h3 show ?thesis by (simp add: reflect_deref_def)
qed

text \<open>
  C6, as the claim states it, fails: the column list follows the order in which \<open>range\<close>
  visits the row's map, which Go leaves open. When the first loop visits \<open>name\<close> before
  \<open>id\<close>, the statement is not the one of the claim.
\<close>

theorem doInsert_statement_order_counterexample:
  "snd (doInsert stub_db None ''t'' (GMap [(''id'', GInt 1), (''name'', GString ''a'')])
        gINSERT_OPTION_SAVE [] rev (\<lambda>m. m) (\<lambda>m. m) [])
     = [EvExec (''INSERT INTO t(\"name\",\"id\") VALUES(?,?) ''
                  @ ''ON DUPLICATE KEY UPDATE \"id\"=VALUES(\"id\"),\"name\"=VALUES(\"name\")'')
          [GString ''a'', GInt 1]]
   \<and> snd (doInsert stub_db None ''t'' (GMap [(''id'', GInt 1), (''name'', GString ''a'')])
        gINSERT_OPTION_SAVE [] rev (\<lambda>m. m) (\<lambda>m. m) [])
     \<noteq> [EvExec (''INSERT INTO t(\"id\",\"name\") VALUES(?,?) ''
                  @ ''ON DUPLICATE KEY UPDATE \"id\"=VALUES(\"id\"),\"name\"=VALUES(\"name\")'')
          [GInt 1, GString ''a'']]"
  by (simp add: doInsert_def reflect_deref_def masterLink_def stub_db_def stub_link_def
        handleTableName_def doExec_def gINSERT_OPTION_SAVE_def gINSERT_OPTION_REPLACE_def
        gINSERT_OPTION_IGNORE_def)

text \<open>
  C6, amended. A single-row insert of a map or struct with at least one column executes
  one statement \<open><operation> INTO <table>(<columns>) VALUES(<placeholders>) <clause>\<close>: the
  columns are the quoted keys in the order of the first visit of the row's map, with one
  \<open>?\<close> each and the values in that order as arguments; the clause is
  \<open>ON DUPLICATE KEY UPDATE\<close> followed by \<open>col=VALUES(col)\<close> for the keys in the order of a second
  visit when the write-mode is SAVE, and empty for every other write-mode. The second
  visit being a visit of the same map, the clause lists every column of the row, once.
\<close>

theorem doInsert_statement:
  assumes kind: "snd (reflect_deref data) = KMap \<or> snd (reflect_deref data) = KStruct"
    and m: "varToMapDeep bs data = m" and ne: "m \<noteq> []"
    and lnk: "masterLink bs lnk = Inr lnk1"
    and ch: "getChars bs = (charL, charR)"
    and o1: "mset (ord1 m) = mset m"
    and o2: "mset (ord2 m) = mset m"
  shows "doInsert bs lnk table data option batch ord1 ord2 ordB tr
         = (case doExec bs lnk1 tr
                   (getInsertOperationByOption bs option @ '' INTO '' @ handleTableName bs table
                      @ ''('' @ strings_Join (map (\<lambda>k. charL @ k @ charR) (map fst (ord1 m))) '',''
                      @ '') VALUES('' @ strings_Join (replicate (length (ord1 m)) ''?'') '',''
                      @ '') ''
                      @ (if option = gINSERT_OPTION_SAVE
                         then ''ON DUPLICATE KEY UPDATE ''
                                @ strings_Join
                                    (map (\<lambda>k. charL @ k @ charR @ ''=VALUES('' @ charL @ k @ charR @ '')'')
                                       (map fst (ord2 m))) '',''
                         else []))
                   (map snd (ord1 m)) of
              (res, tr1) \<Rightarrow> (Return res, tr1))
         \<and> mset (map fst (ord1 m)) = mset (map fst m)
         \<and> mset (map fst (ord2 m)) = mset (map fst m)"
proof -
  obtain rv k where rd: "reflect_deref data = (rv, k)" by (cases "reflect_deref data")
  with kind have k: "k = KMap \<or> k = KStruct" by simp
  have m1: "map (\<lambda>(k, v). charL @ k @ charR) (ord1 m) = map (\<lambda>k. charL @ k @ charR) (map fst (ord1 m))"
    by (simp add: case_prod_unfold)
  have m2: "map (\<lambda>(k, v). ''?'') (ord1 m) = replicate (length (ord1 m)) ''?''"
    by (simp add: case_prod_unfold map_replicate_const)
  have m3: "map (\<lambda>(k, v). v) (ord1 m) = map snd (ord1 m)"
    by (simp add: case_prod_unfold)
  have A: "doInsert bs lnk table data option batch ord1 ord2 ordB tr
         = (case doExec bs lnk1 tr
                   (getInsertOperationByOption bs option @ '' INTO '' @ handleTableName bs table
                      @ ''('' @ strings_Join (map (\<lambda>k. charL @ k @ charR) (map fst (ord1 m))) '',''
                      @ '') VALUES('' @ strings_Join (replicate (length (ord1 m)) ''?'') '',''
                      @ '') ''
                      @ (if option = gINSERT_OPTION_SAVE
                         then ''ON DUPLICATE KEY UPDATE ''
                                @ strings_Join
                                    (map (\<lambda>k. charL @ k @ charR @ ''=VALUES('' @ charL @ k @ charR @ '')'')
                                       (map fst (ord2 m))) '',''
                         else []))
                   (map snd (ord1 m)) of
              (res, tr1) \<Rightarrow> (Return res, tr1))"
    unfolding doInsert_def rd m Let_def prod.case ch m1 m2 m3 updateStr_loop_join lnk
    using k ne by auto
  have B: "mset (map fst (ord1 m)) = mset (map fst m)"
    using o1 by (metis mset_map)
  have C: "mset (map fst (ord2 m)) = mset (map fst m)"
    using o2 by (metis mset_map)
  from A B C show ?thesis by blast
qed

text \<open>
  The instance of the claim, when both visits go \<open>id\<close>, \<open>name\<close>: the statement of the claim
  in SAVE mode, and no clause in the default mode.
\<close>

theorem doInsert_statement_witness:
  "varToMapDeep stub_db (GMap [(''id'', GInt 1), (''name'', GString ''a'')])
      = [(''id'', GInt 1), (''name'', GString ''a'')]
   \<and> masterLink stub_db None = Inr (stub_link 3)
   \<and> getChars stub_db = (''\"'', ''\"'')
   \<and> doInsert stub_db None ''t'' (GMap [(''id'', GInt 1), (''name'', GString ''a'')])
        gINSERT_OPTION_SAVE [] (\<lambda>m. m) (\<lambda>m. m) (\<lambda>m. m) []
      = (Return (DriverResult 0 3 None, None),
         [EvExec (''INSERT INTO t(\"id\",\"name\") VALUES(?,?) ''
                    @ ''ON DUPLICATE KEY UPDATE \"id\"=VALUES(\"id\"),\"name\"=VALUES(\"name\")'')
            [GInt 1, GString ''a'']])
   \<and> snd (doInsert stub_db None ''t'' (GMap [(''id'', GInt 1), (''name'', GString ''a'')])
        gINSERT_OPTION_DEFAULT [] (\<lambda>m. m) (\<lambda>m. m) (\<lambda>m. m) [])
      = [EvExec ''INSERT INTO t(\"id\",\"name\") VALUES(?,?) '' [GInt 1, GString ''a'']]"
proof -
  let ?row = "[(''id'', GInt 1), (''name'', GString ''a'')]"
  have h1: "snd (reflect_deref (GMap ?row)) = KMap \<or> snd (reflect_deref (GMap ?row)) = KStruct"
    by (simp add: reflect_deref_def)
  have h2: "varToMapDeep stub_db (GMap ?row) = ?row" by (simp add: stub_db_def)
  have h3: "?row \<noteq> []" by simp
  have h4: "masterLink stub_db None = Inr (stub_link 3)" by (simp add: masterLink_def stub_db_def)
  have h5: "getChars stub_db = (''\"'', ''\"'')" by (simp add: stub_db_def)
  have h6: "mset ((\<lambda>m. m) ?row) = mset ?row" by simp
  note T = doInsert_statement[where ?ord2.0="\<lambda>m. m" and ?ord1.0="\<lambda>m. m" and table="''t''"
             and batch="[]" and ordB="\<lambda>m. m" and tr="[]", OF h1 h2 h3 h4 h5 h6 h6]
  have a: "doInsert stub_db None ''t'' (GMap ?row) gINSERT_OPTION_SAVE [] (\<lambda>m. m) (\<lambda>m. m) (\<lambda>m. m) []
      = (Return (DriverResult 0 3 None, None),
         [EvExec (''INSERT INTO t(\"id\",\"name\") VALUES(?,?) ''
                    @ ''ON DUPLICATE KEY UPDATE \"id\"=VALUES(\"id\"),\"name\"=VALUES(\"name\")'')
            [GInt 1, GString ''a'']])"
    unfolding T[where option=gINSERT_OPTION_SAVE, THEN conjunct1]
    by (simp add: stub_db_def stub_link_def doExec_def handleTableName_def
          gINSERT_OPTION_SAVE_def gINSERT_OPTION_REPLACE_def gINSERT_OPTION_IGNORE_def)
  have b: "snd (doInsert stub_db None ''t'' (GMap ?row) gINSERT_OPTION_DEFAULT [] (\<lambda>m. m) (\<lambda>m. m) (\<lambda>m. m) [])
      = [EvExec ''INSERT INTO t(\"id\",\"name\") VALUES(?,?) '' [GInt 1, GString ''a'']]"
    unfolding T[where option=gINSERT_OPTION_DEFAULT, THEN conjunct1]
    by (simp add: stub_db_def stub_link_def doExec_def handleTableName_def gINSERT_OPTION_DEFAULT_def
          gINSERT_OPTION_SAVE_def gINSERT_OPTION_REPLACE_def gINSERT_OPTION_IGNORE_def)
  from h2 h4 h5 a b show ?thesis by blast
qed
section \<open>The materializer returns what the driver delivered\<close>

lemma read_record_map_assign:
  "read_record bs mem (map_assign row k s) = map_assign (read_record bs mem row) k (read_stored bs mem s)"
  by (induction row) (auto simp: read_record_def)

lemma read_stored_stable:
  assumes "owned free s" "\<And>a. a < free \<Longrightarrow> mem' (Heap a) = mem (Heap a)"
  shows "read_stored bs mem' s = read_stored bs mem s"
  using assms by (induction free s rule: owned.induct) auto

lemma read_record_stable:
  assumes "\<And>k s. (k, s) \<in> set row \<Longrightarrow> owned free s"
    and "\<And>a. a < free \<Longrightarrow> mem' (Heap a) = mem (Heap a)"
  shows "read_record bs mem' row = read_record bs mem row"
  unfolding read_record_def
  using assms read_stored_stable[of free _ mem' mem bs] by (intro map_cong) auto

lemma owned_mono: "owned free s \<Longrightarrow> free \<le> free' \<Longrightarrow> owned free' s"
  by (induction free s rule: owned.induct) auto

lemma set_map_assign: "set (map_assign row k s) \<subseteq> insert (k, s) (set row)"
  by (induction row) (auto split: if_splits)

lemma load_columns_Heap: "load_columns i cs mem (Heap a) = mem (Heap a)"
  by (induction i cs mem rule: load_columns.induct) (auto simp: fun_upd_def)

lemma load_columns_before: "k < i \<Longrightarrow> load_columns i cs mem (DriverBuf k) = mem (DriverBuf k)"
  by (induction i cs mem rule: load_columns.induct) (auto simp: fun_upd_def)

lemma load_columns_loaded:
  "j < length cs \<Longrightarrow> cs ! j = Some b \<Longrightarrow> load_columns i cs mem (DriverBuf (i + j)) = b"
proof (induction i cs mem arbitrary: j rule: load_columns.induct)
  case (1 i mem)
  then show ?case by simp
next
  case (2 i cs mem)
  then show ?case by (cases j) auto
next
  case (3 i b' cs mem)
  then show ?case by (cases j) (auto simp: load_columns_before fun_upd_def)
qed

lemma storeValues_spec:
  assumes "\<forall>j b. j < length cs \<longrightarrow> cs ! j = Some b \<longrightarrow> mem (DriverBuf (i + j)) = b"
    and "\<forall>k s. (k, s) \<in> set row \<longrightarrow> owned free s"
  shows "\<exists>row' mem' free'.
           storeValues names types (scan_values i cs) i row mem free = (row', mem', free')
           \<and> free \<le> free'
           \<and> (\<forall>a. a < free \<longrightarrow> mem' (Heap a) = mem (Heap a))
           \<and> (\<forall>j. mem' (DriverBuf j) = mem (DriverBuf j))
           \<and> (\<forall>k s. (k, s) \<in> set row' \<longrightarrow> owned free' s)
           \<and> read_record bs mem' row' = expect_from bs names types i cs (read_record bs mem row)"
  using assms
proof (induction cs arbitrary: i row mem free)
  case Nil
  then show ?case by simp
next
  case (Cons c cs)
  have shift: "\<forall>j b. j < length cs \<longrightarrow> cs ! j = Some b \<longrightarrow> mem (DriverBuf (Suc i + j)) = b"
  proof (intro allI impI)
    fix j b assume "j < length cs" "cs ! j = Some b"
    then have "Suc j < length (c # cs)" "(c # cs) ! Suc j = Some b" by simp_all
    with Cons.prems(1) have "mem (DriverBuf (i + Suc j)) = b" by blast
    then show "mem (DriverBuf (Suc i + j)) = b" by simp
  qed
  show ?case
  proof (cases c)
    case None
    let ?row1 = "map_assign row (names ! i) StoredNil"
    have pre2: "\<forall>k s. (k, s) \<in> set ?row1 \<longrightarrow> owned free s"
      using Cons.prems(2) set_map_assign[of row "names ! i" StoredNil] by auto
    from Cons.IH[where i="Suc i" and row="?row1" and mem=mem and free=free, OF shift pre2]
    obtain row' mem' free' where
      st: "storeValues names types (scan_values (Suc i) cs) (Suc i) ?row1 mem free = (row', mem', free')"
      and P: "free \<le> free'" "\<forall>a. a < free \<longrightarrow> mem' (Heap a) = mem (Heap a)"
        "\<forall>j. mem' (DriverBuf j) = mem (DriverBuf j)"
        "\<forall>k s. (k, s) \<in> set row' \<longrightarrow> owned free' s"
      and R: "read_record bs mem' row' = expect_from bs names types (Suc i) cs (read_record bs mem ?row1)"
      by blast
    have "read_record bs mem ?row1
          = map_assign (read_record bs mem row) (names ! i) (expected_value bs (types ! i) c)"
      using None by (simp add: read_record_map_assign expected_value_def)
    with R have R': "read_record bs mem' row' = expect_from bs names types i (c # cs) (read_record bs mem row)"
      by simp
    show ?thesis
      using st P R' None by (intro exI[of _ row'] exI[of _ mem'] exI[of _ free']) simp
  next
    case (Some b)
    let ?v = "Slice (Heap free) (length b)"
    let ?mem1 = "mem(Heap free := b)"
    let ?row1 = "map_assign row (names ! i) (Stored ?v (types ! i))"
    have b: "mem (DriverBuf i) = b" using Cons.prems(1) Some by force
    have pre1: "\<forall>j b. j < length cs \<longrightarrow> cs ! j = Some b \<longrightarrow> ?mem1 (DriverBuf (Suc i + j)) = b"
      using shift by simp
    have pre2: "\<forall>k s. (k, s) \<in> set ?row1 \<longrightarrow> owned (Suc free) s"
    proof (intro allI impI)
      fix k s assume "(k, s) \<in> set ?row1"
      with set_map_assign[of row "names ! i" "Stored ?v (types ! i)"]
      have "s = Stored ?v (types ! i) \<or> (k, s) \<in> set row" by auto
      then show "owned (Suc free) s"
        using Cons.prems(2) owned_mono[of free s "Suc free"] by auto
    qed
    from Cons.IH[where i="Suc i" and row="?row1" and mem="?mem1" and free="Suc free", OF pre1 pre2]
    obtain row' mem' free' where
      st: "storeValues names types (scan_values (Suc i) cs) (Suc i) ?row1 ?mem1 (Suc free) = (row', mem', free')"
      and P: "Suc free \<le> free'" "\<forall>a. a < Suc free \<longrightarrow> mem' (Heap a) = ?mem1 (Heap a)"
        "\<forall>j. mem' (DriverBuf j) = ?mem1 (DriverBuf j)"
        "\<forall>k s. (k, s) \<in> set row' \<longrightarrow> owned free' s"
      and R: "read_record bs mem' row' = expect_from bs names types (Suc i) cs (read_record bs ?mem1 ?row1)"
      by blast
    have stab: "read_record bs ?mem1 row = read_record bs mem row"
      by (rule read_record_stable[of row free]) (use Cons.prems(2) in auto)
    have "read_record bs ?mem1 ?row1
          = map_assign (read_record bs mem row) (names ! i) (expected_value bs (types ! i) c)"
      using Some by (simp add: read_record_map_assign expected_value_def stab)
    with R have R': "read_record bs mem' row' = expect_from bs names types i (c # cs) (read_record bs mem row)"
      by simp
    have step: "storeValues names types (scan_values i (c # cs)) i row mem free
                = storeValues names types (scan_values (Suc i) cs) (Suc i) ?row1 ?mem1 (Suc free)"
      using Some b by simp
    show ?thesis
      unfolding step
      using st P R' by (intro exI[of _ row'] exI[of _ mem'] exI[of _ free']) auto
  qed
qed


lemma read_records_stable:
  assumes "\<forall>row\<in>set records. \<forall>k s. (k, s) \<in> set row \<longrightarrow> owned free s"
    and "\<forall>a. a < free \<longrightarrow> mem' (Heap a) = mem (Heap a)"
  shows "map (read_record bs mem') records = map (read_record bs mem) records"
proof (rule map_cong[OF refl])
  fix row assume "row \<in> set records"
  with assms(1) have "\<And>k s. (k, s) \<in> set row \<Longrightarrow> owned free s" by blast
  then show "read_record bs mem' row = read_record bs mem row"
    by (rule read_record_stable) (use assms(2) in auto)
qed

lemma scanned_all_good:
  assumes "\<forall>cs\<in>set data. length cs = n"
  shows "scanned n (map Inr data) = (data, None)"
  using assms by (induction data) auto

lemma rowsLoop_general:
  assumes loaded: "\<forall>cs. current = Inr cs \<longrightarrow>
                     (\<forall>j b. j < length cs \<longrightarrow> cs ! j = Some b \<longrightarrow> mem (DriverBuf j) = b)"
    and own: "\<forall>row\<in>set records. \<forall>k s. (k, s) \<in> set row \<longrightarrow> owned free s"
  shows "\<exists>records' mem' free'.
           rowsLoop names types current pending mem free records
             = ((records', snd (scanned (length names) (current # pending))), mem')
           \<and> (\<forall>row\<in>set records'. \<forall>k s. (k, s) \<in> set row \<longrightarrow> owned free' s)
           \<and> (\<forall>a. a < free \<longrightarrow> mem' (Heap a) = mem (Heap a))
           \<and> map (read_record bs mem') records'
               = map (read_record bs mem) records
                   @ map (expected_record bs names types) (fst (scanned (length names) (current # pending)))"
  using assms
proof (induction pending arbitrary: current mem free records)
  case Nil
  show ?case
  proof (cases "rows_Scan (length names) current")
    case (Inl e)
    then have sc: "scanned (length names) [current] = ([], Some e)"
      by (cases current) (auto split: if_splits)
    have run: "rowsLoop names types current [] mem free records = ((records, Some e), mem)"
      using Inl by simp
    show ?thesis
      unfolding run sc
      using Nil.prems(2) by (intro exI[of _ records] exI[of _ mem] exI[of _ free]) simp
  next
    case (Inr vals0)
    then obtain cs0 where cur: "current = Inr cs0" and len: "length cs0 = length names"
      and vals: "vals0 = scan_values 0 cs0"
      by (cases current) (auto split: if_splits)
    have sc: "scanned (length names) [current] = ([cs0], None)" using cur len by simp
    have l0: "\<forall>j b. j < length cs0 \<longrightarrow> cs0 ! j = Some b \<longrightarrow> mem (DriverBuf (0 + j)) = b"
      using Nil.prems(1) cur by simp
    have e0: "\<forall>k s. (k, s) \<in> set ([] :: (string \<times> stored) list) \<longrightarrow> owned free s" by simp
    from storeValues_spec[OF l0 e0, of names types bs]
    obtain row' mem1 free1 where
      st: "storeValues names types (scan_values 0 cs0) 0 [] mem free = (row', mem1, free1)"
      and P: "free \<le> free1" "\<forall>a. a < free \<longrightarrow> mem1 (Heap a) = mem (Heap a)"
        "\<forall>k s. (k, s) \<in> set row' \<longrightarrow> owned free1 s"
      and R: "read_record bs mem1 row' = expect_from bs names types 0 cs0 (read_record bs mem [])"
      by blast
    have R': "read_record bs mem1 row' = expected_record bs names types cs0"
      using R by (simp add: expected_record_def read_record_def)
    have run: "rowsLoop names types current [] mem free records = ((records @ [row'], None), mem1)"
      using cur len st by simp
    have own1: "\<forall>row\<in>set (records @ [row']). \<forall>k s. (k, s) \<in> set row \<longrightarrow> owned free1 s"
      using Nil.prems(2) P(1,3) owned_mono[of free _ free1] by auto
    have old: "map (read_record bs mem1) records = map (read_record bs mem) records"
      by (rule read_records_stable[OF Nil.prems(2) P(2)])
    show ?thesis
      unfolding run sc
      using own1 P(2) old R'
      by (intro exI[of _ "records @ [row']"] exI[of _ mem1] exI[of _ free1]) simp
  qed
next
  case (Cons nxt pending)
  show ?case
  proof (cases "rows_Scan (length names) current")
    case (Inl e)
    then have sc: "scanned (length names) (current # nxt # pending) = ([], Some e)"
      by (cases current) (auto split: if_splits)
    have run: "rowsLoop names types current (nxt # pending) mem free records = ((records, Some e), mem)"
      using Inl by simp
    show ?thesis
      unfolding run sc
      using Cons.prems(2) by (intro exI[of _ records] exI[of _ mem] exI[of _ free]) simp
  next
    case (Inr vals0)
    then obtain cs0 where cur: "current = Inr cs0" and len: "length cs0 = length names"
      and vals: "vals0 = scan_values 0 cs0"
      by (cases current) (auto split: if_splits)
    have sc: "scanned (length names) (current # nxt # pending)
              = (cs0 # fst (scanned (length names) (nxt # pending)),
                 snd (scanned (length names) (nxt # pending)))"
      using cur len by simp
    have l0: "\<forall>j b. j < length cs0 \<longrightarrow> cs0 ! j = Some b \<longrightarrow> mem (DriverBuf (0 + j)) = b"
      using Cons.prems(1) cur by simp
    have e0: "\<forall>k s. (k, s) \<in> set ([] :: (string \<times> stored) list) \<longrightarrow> owned free s" by simp
    from storeValues_spec[OF l0 e0, of names types bs]
    obtain row' mem1 free1 where
      st: "storeValues names types (scan_values 0 cs0) 0 [] mem free = (row', mem1, free1)"
      and P: "free \<le> free1" "\<forall>a. a < free \<longrightarrow> mem1 (Heap a) = mem (Heap a)"
        "\<forall>k s. (k, s) \<in> set row' \<longrightarrow> owned free1 s"
      and R: "read_record bs mem1 row' = expect_from bs names types 0 cs0 (read_record bs mem [])"
      by blast
    have R': "read_record bs mem1 row' = expected_record bs names types cs0"
      using R by (simp add: expected_record_def read_record_def)
    let ?mem2 = "rows_Next_load nxt mem1"
    have run: "rowsLoop names types current (nxt # pending) mem free records
               = rowsLoop names types nxt pending ?mem2 free1 (records @ [row'])"
      using cur len st by simp
    have loaded': "\<forall>cs. nxt = Inr cs \<longrightarrow>
                     (\<forall>j b. j < length cs \<longrightarrow> cs ! j = Some b \<longrightarrow> ?mem2 (DriverBuf j) = b)"
      using load_columns_loaded[of _ _ _ 0 mem1] by auto
    have own1: "\<forall>row\<in>set (records @ [row']). \<forall>k s. (k, s) \<in> set row \<longrightarrow> owned free1 s"
      using Cons.prems(2) P(1,3) owned_mono[of free _ free1] by auto
    from Cons.IH[OF loaded' own1]
    obtain records' mem' free' where
      ih: "rowsLoop names types nxt pending ?mem2 free1 (records @ [row'])
           = ((records', snd (scanned (length names) (nxt # pending))), mem')"
      and Q: "\<forall>row\<in>set records'. \<forall>k s. (k, s) \<in> set row \<longrightarrow> owned free' s"
        "\<forall>a. a < free1 \<longrightarrow> mem' (Heap a) = ?mem2 (Heap a)"
      and S: "map (read_record bs mem') records'
              = map (read_record bs ?mem2) (records @ [row'])
                  @ map (expected_record bs names types) (fst (scanned (length names) (nxt # pending)))"
      by blast
    have heap2: "\<And>a. ?mem2 (Heap a) = mem1 (Heap a)"
      by (cases nxt) (simp_all add: load_columns_Heap)
    have h2: "\<forall>a. a < free1 \<longrightarrow> ?mem2 (Heap a) = mem1 (Heap a)"
      by (simp add: heap2)
    have a: "map (read_record bs ?mem2) (records @ [row']) = map (read_record bs mem1) (records @ [row'])"
      by (rule read_records_stable[OF own1 h2])
    have old: "map (read_record bs mem1) records = map (read_record bs mem) records"
      by (rule read_records_stable[OF Cons.prems(2) P(2)])
    have S': "map (read_record bs mem') records'
              = map (read_record bs mem) records
                  @ map (expected_record bs names types)
                      (cs0 # fst (scanned (length names) (nxt # pending)))"
      using S a old R' by simp
    have keep: "\<forall>a. a < free \<longrightarrow> mem' (Heap a) = mem (Heap a)"
      using Q(2) P(1,2) by (auto simp: heap2)
    show ?thesis
      unfolding run ih sc
      using Q(1) keep S' by (intro exI[of _ records'] exI[of _ mem'] exI[of _ free']) simp
  qed
qed
section \<open>Queries: the claims\<close>

text \<open>
  C7. For every cursor whose column metadata can be read, \<open>rowsToResult\<close> returns one
  record for each row delivered before the first failing \<open>Scan\<close> (and that failure, if
  any), and each record holds, under each column name, what the driver delivered for that
  row and column: \<open>gvar.New(nil)\<close> for a NULL (not the conversion of an empty string), and
  the conversion of the column's bytes otherwise, although the driver has written every
  later row over the same buffers. Every stored value is the materializer's own: nil, or
  a slice of a buffer that the materializer allocated and filled by copy; none is a
  slice of a driver buffer. So the records read the same in every memory that agrees with
  the final one on the allocated buffers, whatever the driver's buffers hold.
\<close>

theorem rowsToResult_copies_values:
  assumes cols: "rows_ColumnTypes rws = Inr columns"
  shows "rowsToResult bs rws
           = (map (expected_record bs (map fst columns) (map snd columns))
                (fst (scanned (length columns) (rows_data rws))),
              snd (scanned (length columns) (rows_data rws)))
         \<and> (\<exists>records mem free.
               rowsToResult_mem rws = ((records, snd (scanned (length columns) (rows_data rws))), mem)
               \<and> (\<forall>row\<in>set records. \<forall>k s. (k, s) \<in> set row \<longrightarrow> owned free s)
               \<and> (\<forall>mem'. (\<forall>a. mem' (Heap a) = mem (Heap a)) \<longrightarrow>
                     map (read_record bs mem') records
                       = map (expected_record bs (map fst columns) (map snd columns))
                           (fst (scanned (length columns) (rows_data rws)))))"
proof (cases "rows_data rws")
  case Nil
  then show ?thesis
    by (simp add: rowsToResult_def rowsToResult_mem_def)
next
  case (Cons first pending)
  let ?names = "map fst columns" and ?types = "map snd columns"
  let ?mem0 = "rows_Next_load first (\<lambda>a. [])"
  let ?sc = "scanned (length columns) (first # pending)"
  have loaded: "\<forall>cs. first = Inr cs \<longrightarrow>
                  (\<forall>j b. j < length cs \<longrightarrow> cs ! j = Some b \<longrightarrow> ?mem0 (DriverBuf j) = b)"
    using load_columns_loaded[of _ _ _ 0] by auto
  have own: "\<forall>row\<in>set ([] :: (string \<times> stored) list list). \<forall>k s. (k, s) \<in> set row \<longrightarrow> owned 0 s"
    by simp
  from rowsLoop_general[OF loaded own, of ?names ?types pending bs]
  obtain records mem free where
    run: "rowsLoop ?names ?types first pending ?mem0 0 [] = ((records, snd ?sc), mem)"
    and O: "\<forall>row\<in>set records. \<forall>k s. (k, s) \<in> set row \<longrightarrow> owned free s"
    and S: "map (read_record bs mem) records = map (expected_record bs ?names ?types) (fst ?sc)"
    by auto
  have M: "rowsToResult_mem rws = ((records, snd ?sc), mem)"
    using cols Cons run by (simp add: rowsToResult_mem_def)
  have A: "rowsToResult bs rws = (map (expected_record bs ?names ?types) (fst ?sc), snd ?sc)"
    using M S by (simp add: rowsToResult_def)
  have B: "\<forall>mem'. (\<forall>a. mem' (Heap a) = mem (Heap a)) \<longrightarrow>
             map (read_record bs mem') records = map (expected_record bs ?names ?types) (fst ?sc)"
  proof (intro allI impI)
    fix mem' assume "\<forall>a. mem' (Heap a) = mem (Heap a)"
    then have "\<forall>a. a < free \<longrightarrow> mem' (Heap a) = mem (Heap a)" by simp
    from read_records_stable[OF O this, of bs]
    have "map (read_record bs mem') records = map (read_record bs mem) records" .
    with S
    show "map (read_record bs mem') records = map (expected_record bs ?names ?types) (fst ?sc)"
      by (simp only:)
  qed
  from A M O B show ?thesis unfolding Cons by blast
qed

text \<open>
  Two consecutive rows through one buffer per column: the buffer of the first column
  ends up holding \<open>bob\<close>, the first record still reads \<open>alice\<close> from its own copy, and the
  NULL of the first row is \<open>gvar.New(nil)\<close> where the empty string of the second row is a
  string.
\<close>

theorem rowsToResult_copies_values_witness:
  "rows_ColumnTypes two_rows = Inr [(''name'', ''varchar''), (''nick'', ''varchar'')]
   \<and> rowsToResult stub_db two_rows
       = ([[(''name'', Some (GString ''alice'')), (''nick'', Some GNil)],
           [(''name'', Some (GString ''bob'')), (''nick'', Some (GString []))]], None)
   \<and> fst (rowsToResult_mem two_rows)
       = ([[(''name'', Stored (Slice (Heap 0) 5) ''varchar''), (''nick'', StoredNil)],
           [(''name'', Stored (Slice (Heap 1) 3) ''varchar''),
            (''nick'', Stored (Slice (Heap 2) 0) ''varchar'')]], None)
   \<and> snd (rowsToResult_mem two_rows) (DriverBuf 0) = ''bob''
   \<and> snd (rowsToResult_mem two_rows) (Heap 0) = ''alice''"
proof -
  have h1: "rows_ColumnTypes two_rows = Inr [(''name'', ''varchar''), (''nick'', ''varchar'')]"
    by (simp add: two_rows_def)
  from rowsToResult_copies_values[OF h1, of stub_db]
  have "rowsToResult stub_db two_rows
        = (map (expected_record stub_db (map fst [(''name'', ''varchar''), (''nick'', ''varchar'')])
                  (map snd [(''name'', ''varchar''), (''nick'', ''varchar'')]))
             (fst (scanned (length [(''name'', ''varchar''), (''nick'', ''varchar'')]) (rows_data two_rows))),
           snd (scanned (length [(''name'', ''varchar''), (''nick'', ''varchar'')]) (rows_data two_rows)))"
    by blast
  then have a: "rowsToResult stub_db two_rows
       = ([[(''name'', Some (GString ''alice'')), (''nick'', Some GNil)],
           [(''name'', Some (GString ''bob'')), (''nick'', Some (GString []))]], None)"
    by (simp add: expected_record_def expected_value_def stub_db_def two_rows_def)
  have b: "fst (rowsToResult_mem two_rows)
       = ([[(''name'', Stored (Slice (Heap 0) 5) ''varchar''), (''nick'', StoredNil)],
           [(''name'', Stored (Slice (Heap 1) 3) ''varchar''),
            (''nick'', Stored (Slice (Heap 2) 0) ''varchar'')]], None)"
    by (simp add: rowsToResult_mem_def two_rows_def)
  have c: "snd (rowsToResult_mem two_rows) (DriverBuf 0) = ''bob''"
    by (simp add: rowsToResult_mem_def two_rows_def)
  have d: "snd (rowsToResult_mem two_rows) (Heap 0) = ''alice''"
    by (simp add: rowsToResult_mem_def two_rows_def)
  from h1 a b c d show ?thesis by blast
qed

lemma doGetAll_zero_rows:
  assumes "Slave bs = Inr lnk"
    and "doQuery bs lnk tr query args = ((Some rws, None), tr1)"
    and "rows_data rws = []"
  shows "GetAll bs query args tr = (([], None), tr1)"
  using assms
  by (simp add: GetAll_def doGetAll_def rowsToResult_def rowsToResult_mem_def)

text \<open>
  C8, as the claim states it, fails for \<open>GetOne\<close>: on zero rows it returns a nil record
  and a nil error, not \<open>sql.ErrNoRows\<close>.
\<close>

theorem GetOne_zero_rows_counterexample:
  "GetOne (query_db no_rows) ''SELECT * FROM users'' [] []
     = (([], None), [EvQuery ''SELECT * FROM users'' []])
   \<and> snd (fst (GetOne (query_db no_rows) ''SELECT * FROM users'' [] [])) \<noteq> Some ErrNoRows"
  by (simp add: GetOne_def GetAll_def doGetAll_def doQuery_def rowsToResult_def rowsToResult_mem_def
        query_db_def query_link_def stub_db_def no_rows_def)

text \<open>
  C8, amended. When the query succeeds and its cursor has no row, \<open>rowsToResult\<close> and
  \<open>GetAll\<close> return the nil \<open>Result\<close> with a nil error, \<open>GetOne\<close> returns the nil \<open>Record\<close> with
  a nil error, and \<open>GetStruct\<close> returns \<open>sql.ErrNoRows\<close>.
\<close>

theorem zero_rows_outcomes:
  assumes "Slave bs = Inr lnk"
    and "doQuery bs lnk tr query args = ((Some rws, None), tr1)"
    and "rows_data rws = []"
  shows "rowsToResult bs rws = ([], None)
         \<and> GetAll bs query args tr = (([], None), tr1)
         \<and> GetOne bs query args tr = (([], None), tr1)
         \<and> GetStruct bs pointer query args tr = (Some ErrNoRows, tr1)"
  using assms doGetAll_zero_rows[OF assms]
  by (simp add: GetOne_def GetStruct_def rowsToResult_def rowsToResult_mem_def)

theorem zero_rows_outcomes_witness:
  "Slave (query_db no_rows) = Inr (query_link no_rows)
   \<and> doQuery (query_db no_rows) (query_link no_rows) [] ''SELECT * FROM users'' []
       = ((Some no_rows, None), [EvQuery ''SELECT * FROM users'' []])
   \<and> rows_data no_rows = []
   \<and> rowsToResult (query_db no_rows) no_rows = ([], None)
   \<and> GetAll (query_db no_rows) ''SELECT * FROM users'' [] [] = (([], None), [EvQuery ''SELECT * FROM users'' []])
   \<and> GetOne (query_db no_rows) ''SELECT * FROM users'' [] [] = (([], None), [EvQuery ''SELECT * FROM users'' []])
   \<and> GetStruct (query_db no_rows) GNil ''SELECT * FROM users'' [] []
       = (Some ErrNoRows, [EvQuery ''SELECT * FROM users'' []])"
proof -
  have h1: "Slave (query_db no_rows) = Inr (query_link no_rows)" by (simp add: query_db_def)
  have h2: "doQuery (query_db no_rows) (query_link no_rows) [] ''SELECT * FROM users'' []
       = ((Some no_rows, None), [EvQuery ''SELECT * FROM users'' []])"
    by (simp add: doQuery_def query_db_def query_link_def stub_db_def)
  have h3: "rows_data no_rows = []" by (simp add: no_rows_def)
  from zero_rows_outcomes[OF h1 h2 h3, of GNil] h1 h2 h3 show ?thesis by blast
qed

text \<open>
  C4. The two literal inputs of the claim behave as it says. The third does not: its
  field list holds a COUNT aggregate with an alias, the pattern of the guard does not
  match it (the pattern asks for \<open>)\<close>, white space and \<open>FROM\<close> in a row), and the query is
  rewritten into a COUNT of a COUNT.
\<close>

theorem GetCount_query_examples:
  "GetCount_query ''SELECT * FROM users'' = ''SELECT COUNT(*) FROM users''
   \<and> GetCount_query ''SELECT COUNT(*) FROM users'' = ''SELECT COUNT(*) FROM users''
   \<and> IsMatch countPattern ''SELECT COUNT(*) AS total FROM users'' = False
   \<and> GetCount_query ''SELECT COUNT(*) AS total FROM users''
       = ''SELECT COUNT(COUNT(*) AS total) FROM users''"
  by code_simp

lemma GetCount_query_unchanged: "IsMatch countPattern query \<Longrightarrow> GetCount_query query = query"
  by (simp add: GetCount_query_def)

text \<open>
  C10. With a slave link and a \<open>range\<close> that visits what is in the map: on a query that
  succeeds with zero rows \<open>GetValue\<close> returns the nil \<open>Value\<close> and a nil error; on a
  non-empty first record it returns the value of one of its fields; \<open>GetCount\<close> applies the
  \<open>Int\<close> conversion to the \<open>Value\<close> that \<open>GetValue\<close> returned with a nil error, whatever it
  is, so that on zero rows its result is that of \<open>Int\<close> on the nil \<open>Value\<close> (a panic, if
  that is what \<open>Int\<close> does there), not a \<open>0\<close> of its own.
\<close>

theorem GetValue_GetCount_zero_rows:
  assumes sl: "Slave bs = Inr lnk" and ord: "\<forall>m. mset (ord m) = mset m"
  shows "(doQuery bs lnk tr query args = ((Some rws, None), tr1) \<longrightarrow> rows_data rws = []
            \<longrightarrow> GetValue bs query args ord tr = ((None, None), tr1))
         \<and> (GetOne bs query args tr = ((one, None), tr1) \<longrightarrow> one \<noteq> []
            \<longrightarrow> (\<exists>k v. (k, v) \<in> set one \<and> GetValue bs query args ord tr = ((v, None), tr1)))
         \<and> (GetValue bs (GetCount_query query) args ord tr = ((value, None), tr1)
            \<longrightarrow> GetCount bs query args ord tr
                = (case Var_Int bs value of Panic \<Rightarrow> Panic | Return n \<Rightarrow> Return (n, None), tr1))
         \<and> (doQuery bs lnk tr (GetCount_query query) args = ((Some rws, None), tr1) \<longrightarrow> rows_data rws = []
            \<longrightarrow> GetCount bs query args ord tr
                = (case Var_Int bs None of Panic \<Rightarrow> Panic | Return n \<Rightarrow> Return (n, None), tr1))"
proof -
  have e: "ord [] = []" using ord[rule_format, of "[]"] by simp
  have zero: "GetValue bs q args ord tr = ((None, None), tr1)"
    if a: "doQuery bs lnk tr q args = ((Some rws, None), tr1)" "rows_data rws = []" for q
  proof -
    from doGetAll_zero_rows[OF sl a]
    have "GetOne bs q args tr = (([], None), tr1)" by (simp add: GetOne_def)
    then show ?thesis using e by (simp add: GetValue_def)
  qed
  have A: "doQuery bs lnk tr query args = ((Some rws, None), tr1) \<longrightarrow> rows_data rws = []
            \<longrightarrow> GetValue bs query args ord tr = ((None, None), tr1)"
    using zero by blast
  have B: "GetOne bs query args tr = ((one, None), tr1) \<longrightarrow> one \<noteq> []
            \<longrightarrow> (\<exists>k v. (k, v) \<in> set one \<and> GetValue bs query args ord tr = ((v, None), tr1))"
  proof (intro impI)
    assume g: "GetOne bs query args tr = ((one, None), tr1)" and ne: "one \<noteq> []"
    have m: "mset (ord one) = mset one" using ord by blast
    then have "ord one \<noteq> []" using ne by auto
    then obtain k v others where o: "ord one = (k, v) # others" by (cases "ord one") auto
    then have "(k, v) \<in> set (ord one)" by simp
    then have "(k, v) \<in> set one" using m by (metis mset_eq_setD)
    moreover have "GetValue bs query args ord tr = ((v, None), tr1)"
      using g o by (simp add: GetValue_def)
    ultimately show "\<exists>k v. (k, v) \<in> set one \<and> GetValue bs query args ord tr = ((v, None), tr1)"
      by blast
  qed
  have C: "GetCount bs query args ord tr
                = (case Var_Int bs v0 of Panic \<Rightarrow> Panic | Return n \<Rightarrow> Return (n, None), tr1)"
    if "GetValue bs (GetCount_query query) args ord tr = ((v0, None), tr1)" for v0
    using that by (simp add: GetCount_def split: outcome.splits)
  have D: "doQuery bs lnk tr (GetCount_query query) args = ((Some rws, None), tr1) \<longrightarrow> rows_data rws = []
            \<longrightarrow> GetCount bs query args ord tr
                = (case Var_Int bs None of Panic \<Rightarrow> Panic | Return n \<Rightarrow> Return (n, None), tr1)"
    using zero[of "GetCount_query query"] C[of None] by blast
  from A B C D show ?thesis by blast
qed

text \<open>An instance with an \<open>Int\<close> that panics on nil: \<open>GetCount\<close> on zero rows panics.\<close>

theorem GetValue_GetCount_zero_rows_witness:
  "Slave (strict_db no_rows) = Inr (query_link no_rows)
   \<and> (\<forall>m. mset ((\<lambda>m :: Record. m) m) = mset m)
   \<and> doQuery (strict_db no_rows) (query_link no_rows) [] (GetCount_query ''SELECT * FROM users'') []
       = ((Some no_rows, None), [EvQuery ''SELECT COUNT(*) FROM users'' []])
   \<and> rows_data no_rows = []
   \<and> Var_Int (strict_db no_rows) None = Panic
   \<and> GetCount (strict_db no_rows) ''SELECT * FROM users'' [] (\<lambda>m. m) []
       = (Panic, [EvQuery ''SELECT COUNT(*) FROM users'' []])"
proof -
  have q: "GetCount_query ''SELECT * FROM users'' = ''SELECT COUNT(*) FROM users''"
    by code_simp
  have h1: "Slave (strict_db no_rows) = Inr (query_link no_rows)"
    by (simp add: strict_db_def query_db_def)
  have h2: "\<forall>m. mset ((\<lambda>m :: Record. m) m) = mset m" by simp
  have h3: "doQuery (strict_db no_rows) (query_link no_rows) [] (GetCount_query ''SELECT * FROM users'') []
       = ((Some no_rows, None), [EvQuery ''SELECT COUNT(*) FROM users'' []])"
    unfolding q by (simp add: doQuery_def strict_db_def query_db_def query_link_def stub_db_def)
  have h4: "rows_data no_rows = []" by (simp add: no_rows_def)
  have h5: "Var_Int (strict_db no_rows) None = Panic" by (simp add: strict_db_def)
  from GetValue_GetCount_zero_rows[OF h1 h2, where query="''SELECT * FROM users''" and tr="[]"
         and args="[]" and rws=no_rows and ?tr1.0="[EvQuery ''SELECT COUNT(*) FROM users'' []]"]
  have "doQuery (strict_db no_rows) (query_link no_rows) [] (GetCount_query ''SELECT * FROM users'') []
          = ((Some no_rows, None), [EvQuery ''SELECT COUNT(*) FROM users'' []])
        \<longrightarrow> rows_data no_rows = []
        \<longrightarrow> GetCount (strict_db no_rows) ''SELECT * FROM users'' [] (\<lambda>m. m) []
            = (case Var_Int (strict_db no_rows) None of Panic \<Rightarrow> Panic | Return n \<Rightarrow> Return (n, None),
               [EvQuery ''SELECT COUNT(*) FROM users'' []])"
    by blast
  with h3 h4 h5 have "GetCount (strict_db no_rows) ''SELECT * FROM users'' [] (\<lambda>m. m) []
       = (Panic, [EvQuery ''SELECT COUNT(*) FROM users'' []])" by simp
  with h1 h2 h3 h4 h5 show ?thesis by blast
qed

end
